theory Spec2Isabelle
  imports Main
begin

section \<open>Strings of the Go standard library\<close>

text \<open>
  A Go \<open>string\<close> is a sequence of bytes; it is modelled as a \<open>char list\<close> (one \<open>char\<close>
  per byte). The functions of package \<open>strings\<close> that \<open>main.go\<close> calls are written after
  their Go definitions: \<open>HasPrefix\<close> compares the first \<open>len(prefix)\<close> bytes,
  \<open>HasSuffix\<close> the last \<open>len(suffix)\<close> bytes, \<open>TrimSuffix\<close> cuts the suffix off when it
  is there.
\<close>

definition hasPrefix :: "string \<Rightarrow> string \<Rightarrow> bool" where
  "hasPrefix s p = (length p \<le> length s \<and> take (length p) s = p)"

definition hasSuffix :: "string \<Rightarrow> string \<Rightarrow> bool" where
  "hasSuffix s suf = (length suf \<le> length s \<and> drop (length s - length suf) s = suf)"

definition trimSuffix :: "string \<Rightarrow> string \<Rightarrow> string" where
  "trimSuffix s suf = (if hasSuffix s suf then take (length s - length suf) s else s)"

section \<open>The three regular expressions\<close>

text \<open>
  \<open>main.go\<close> compiles three patterns:
  \<^item> \<open>linkRegex\<close>: \<^verbatim>\<open>(?m)([^!])\[([^\]]*)\]\(([^)]+)\)\<close>
  \<^item> \<open>startLinkRegex\<close>: \<^verbatim>\<open>(?m)^\[([^\]]*)\]\(([^)]+)\)\<close>
  \<^item> \<open>imgRegex\<close>: \<^verbatim>\<open>!\[([^\]]*)\]\(([^)]+)\)\<close>

  All three end in the same tail \<^verbatim>\<open>\[([^\]]*)\]\(([^)]+)\)\<close>. A negated class that is
  followed by the excluded character itself leaves the matcher no choice: the greedy run
  \<^verbatim>\<open>[^\]]*\<close> must stop at the first \<open>]\<close>, and \<^verbatim>\<open>[^)]+\<close> at the first \<open>)\<close>; any
  shorter run would be followed by a character of the class, not by the literal. So a
  match that starts at a given position is unique, and \<open>bracketed\<close> computes it: the two
  captured groups and the text after the closing parenthesis. Go's negated classes
  match a newline too.

  Go's regexp reads UTF-8 runes, the model reads bytes. The literals of the patterns
  (\<open>!\<close>, \<open>[\<close>, \<open>]\<close>, \<open>(\<close>, \<open>)\<close>, newline) are ASCII and never occur inside a longer
  UTF-8 sequence, so the brackets found are the same. The only rune-sized item is the
  prefix \<^verbatim>\<open>[^!]\<close> of \<open>linkRegex\<close>: where Go captures a rune of several bytes, the
  model captures its last byte and copies the earlier bytes as unmatched text. The
  prefix is written back as it was, so both give the same output.
\<close>

definition bracketed :: "string \<Rightarrow> (string \<times> string \<times> string) option" where
  "bracketed s =
     (case s of
        [] \<Rightarrow> None
      | c # s1 \<Rightarrow>
          if c \<noteq> CHR ''['' then None
          else
            (let text = takeWhile (\<lambda>x. x \<noteq> CHR '']'') s1;
                 s2 = dropWhile (\<lambda>x. x \<noteq> CHR '']'') s1
             in case s2 of
                  c1 # c2 # s3 \<Rightarrow>
                    if c1 = CHR '']'' \<and> c2 = CHR ''('' then
                      (let url = takeWhile (\<lambda>x. x \<noteq> CHR '')'') s3;
                           s4 = dropWhile (\<lambda>x. x \<noteq> CHR '')'') s3
                       in if url = [] then None
                          else (case s4 of [] \<Rightarrow> None | c3 # rest \<Rightarrow> Some (text, url, rest)))
                    else None
                | _ \<Rightarrow> None))"

datatype regex = LinkRegex | StartLinkRegex | ImgRegex

text \<open>
  \<open>match_at re prev s\<close> is the match of \<open>re\<close> that starts at the current position: \<open>s\<close>
  is the text from that position on, \<open>prev\<close> the byte before it (\<open>None\<close> at the start of
  the text), which the multi-line \<open>^\<close> of \<open>startLinkRegex\<close> looks at. The result is the
  matched text, the captured groups and the text after the match.
\<close>

definition wholeLink :: "string \<Rightarrow> string \<Rightarrow> string" where
  "wholeLink text url = ''['' @ text @ '']('' @ url @ '')''"

fun match_at ::
  "regex \<Rightarrow> char option \<Rightarrow> string \<Rightarrow> (string \<times> string list \<times> string) option"
where
  "match_at LinkRegex prev [] = None"
| "match_at LinkRegex prev (c # s) =
     (if c = CHR ''!'' then None
      else (case bracketed s of
              None \<Rightarrow> None
            | Some (text, url, rest) \<Rightarrow> Some (c # wholeLink text url, [[c], text, url], rest)))"
| "match_at StartLinkRegex prev s =
     (if prev = None \<or> prev = Some (CHR 0x0A) then
        (case bracketed s of
           None \<Rightarrow> None
         | Some (text, url, rest) \<Rightarrow> Some (wholeLink text url, [text, url], rest))
      else None)"
| "match_at ImgRegex prev [] = None"
| "match_at ImgRegex prev (c # s) =
     (if c = CHR ''!'' then
        (case bracketed s of
           None \<Rightarrow> None
         | Some (text, url, rest) \<Rightarrow> Some (c # wholeLink text url, [text, url], rest))
      else None)"

text \<open>
  \<open>FindStringSubmatch\<close>: the leftmost match in \<open>s\<close>, as the list \<open>parts\<close> of the matched
  text followed by the groups; \<open>None\<close> is Go's \<open>nil\<close> slice, of length 0.
\<close>

fun findFrom :: "regex \<Rightarrow> char option \<Rightarrow> string \<Rightarrow> string list option" where
  "findFrom re prev [] =
     (case match_at re prev [] of
        Some (m, groups, rest) \<Rightarrow> Some (m # groups)
      | None \<Rightarrow> None)"
| "findFrom re prev (c # s) =
     (case match_at re prev (c # s) of
        Some (m, groups, rest) \<Rightarrow> Some (m # groups)
      | None \<Rightarrow> findFrom re (Some c) s)"

definition findStringSubmatch :: "regex \<Rightarrow> string \<Rightarrow> string list option" where
  "findStringSubmatch re s = findFrom re None s"

text \<open>
  \<open>ReplaceAllStringFunc\<close>: Go looks for the leftmost match from the search position,
  copies the text before it, appends \<open>repl\<close> of the matched text and searches again from
  the end of the match; the text after the last match is copied. None of the three
  patterns matches the empty string, so Go's rules for empty matches never apply. The
  callback of \<open>embedImages\<close> reads files and prints, so a callback returns its string
  together with the events it caused, and the events are collected in order.
\<close>

lemma bracketed_shorter:
  "bracketed s = Some (text, url, rest) \<Longrightarrow> length rest < length s"
proof -
  assume a: "bracketed s = Some (text, url, rest)"
  have dw: "\<And>P (xs :: string). length (dropWhile P xs) \<le> length xs"
    by (simp add: length_dropWhile_le)
  from a obtain c s1 where s: "s = c # s1"
    by (cases s) (auto simp: bracketed_def)
  from a s obtain c1 c2 s3 where s2: "dropWhile (\<lambda>x. x \<noteq> CHR '']'') s1 = c1 # c2 # s3"
    by (auto simp: bracketed_def Let_def split: if_splits list.splits)
  from a s s2 obtain c3 where s4: "dropWhile (\<lambda>x. x \<noteq> CHR '')'') s3 = c3 # rest"
    by (auto simp: bracketed_def Let_def split: if_splits list.splits)
  have "length rest < length s3"
    using dw[of "\<lambda>x. x \<noteq> CHR '')''" s3] s4 by simp
  moreover have "length s3 < length s1"
    using dw[of "\<lambda>x. x \<noteq> CHR '']''" s1] s2 by simp
  ultimately show ?thesis using s by simp
qed

lemma match_at_shorter:
  "match_at re prev s = Some (m, groups, rest) \<Longrightarrow> length rest < length s"
proof (cases re)
  case LinkRegex
  assume "match_at re prev s = Some (m, groups, rest)"
  with LinkRegex show ?thesis
    by (cases s) (auto split: if_splits option.splits dest: bracketed_shorter)
next
  case StartLinkRegex
  assume "match_at re prev s = Some (m, groups, rest)"
  with StartLinkRegex show ?thesis
    by (auto split: if_splits option.splits dest: bracketed_shorter)
next
  case ImgRegex
  assume "match_at re prev s = Some (m, groups, rest)"
  with ImgRegex show ?thesis
    by (cases s) (auto split: if_splits option.splits dest: bracketed_shorter)
qed

function replaceAllStringFunc ::
  "regex \<Rightarrow> (string \<Rightarrow> string \<times> 'e list) \<Rightarrow> char option \<Rightarrow> string \<Rightarrow> string \<times> 'e list"
where
  "replaceAllStringFunc re repl prev [] = ([], [])"
| "replaceAllStringFunc re repl prev (c # s) =
     (case match_at re prev (c # s) of
        None \<Rightarrow>
          (let (out, evs) = replaceAllStringFunc re repl (Some c) s in (c # out, evs))
      | Some (m, groups, rest) \<Rightarrow>
          (let (new, evs1) = repl m;
               (out, evs2) = replaceAllStringFunc re repl (Some (last m)) rest
           in (new @ out, evs1 @ evs2)))"
  by pat_completeness auto
termination
  by (relation "measure (\<lambda>(re, repl, prev, s). length s)")
     (auto dest: match_at_shorter)

text \<open>
  The states of that scan, in order: each is the byte before the search position and
  the text from the search position on. A replacement takes place exactly at the
  states where the pattern matches; the scan does not look at any other position of a
  matched text.
\<close>

function scanStates :: "regex \<Rightarrow> char option \<Rightarrow> string \<Rightarrow> (char option \<times> string) list" where
  "scanStates re prev [] = [(prev, [])]"
| "scanStates re prev (c # s) =
     (prev, c # s)
     # (case match_at re prev (c # s) of
          None \<Rightarrow> scanStates re (Some c) s
        | Some (m, groups, rest) \<Rightarrow> scanStates re (Some (last m)) rest)"
  by pat_completeness auto
termination
  by (relation "measure (\<lambda>(re, prev, s). length s)")
     (auto dest: match_at_shorter)

section \<open>The link rewriter\<close>

text \<open>
  The callback that \<open>rewriteMarkdownLinks\<close> passes for \<open>linkRegex\<close> (lines 94 to 118)
  matches the pattern again on the matched text, returns the text as it is when the
  target starts with \<open>http://\<close>, \<open>https://\<close> or \<open>#\<close>, and otherwise prints prefix, link
  text and target again, the target with a final \<open>.md\<close> turned into \<open>.html\<close>.
\<close>

definition linkRepl :: "string \<Rightarrow> string" where
  "linkRepl match =
     (case findStringSubmatch LinkRegex match of
        None \<Rightarrow> match
      | Some parts \<Rightarrow>
          if length parts < 4 then match
          else
            (let prefix = parts ! 1; linkText = parts ! 2; linkURL = parts ! 3
             in if hasPrefix linkURL ''http://'' \<or> hasPrefix linkURL ''https://''
                   \<or> hasPrefix linkURL ''#''
                then match
                else
                  (let linkURL' =
                         (if hasSuffix linkURL ''.md''
                          then trimSuffix linkURL ''.md'' @ ''.html'' else linkURL)
                   in prefix @ ''['' @ linkText @ '']('' @ linkURL' @ '')'')))"

text \<open>The callback for \<open>startLinkRegex\<close> (lines 122 to 144): the same without a prefix.\<close>

definition startLinkRepl :: "string \<Rightarrow> string" where
  "startLinkRepl match =
     (case findStringSubmatch StartLinkRegex match of
        None \<Rightarrow> match
      | Some parts \<Rightarrow>
          if length parts < 3 then match
          else
            (let linkText = parts ! 1; linkURL = parts ! 2
             in if hasPrefix linkURL ''http://'' \<or> hasPrefix linkURL ''https://''
                   \<or> hasPrefix linkURL ''#''
                then match
                else
                  (let linkURL' =
                         (if hasSuffix linkURL ''.md''
                          then trimSuffix linkURL ''.md'' @ ''.html'' else linkURL)
                   in ''['' @ linkText @ '']('' @ linkURL' @ '')'')))"

definition pureRepl :: "(string \<Rightarrow> string) \<Rightarrow> string \<Rightarrow> string \<times> unit list" where
  "pureRepl f match = (f match, [])"

definition rewriteMarkdownLinks :: "string \<Rightarrow> string" where
  "rewriteMarkdownLinks mdContent =
     (let result = fst (replaceAllStringFunc LinkRegex (pureRepl linkRepl) None mdContent);
          result = fst (replaceAllStringFunc StartLinkRegex (pureRepl startLinkRepl) None result)
      in result)"

text \<open>
  The two passes of \<open>rewriteMarkdownLinks\<close> by name: \<open>linkPass\<close> is the first assignment
  to \<open>result\<close> (line 94), \<open>startLinkPass\<close> the second (line 122), here also from a
  position inside a text, where the byte before the position is known.
  \<open>rewriteMarkdownLinks mdContent\<close> is \<open>startLinkPass None (linkPass mdContent)\<close>.
\<close>

abbreviation linkPass :: "string \<Rightarrow> string" where
  "linkPass s \<equiv> fst (replaceAllStringFunc LinkRegex (pureRepl linkRepl) None s)"

abbreviation startLinkPass :: "char option \<Rightarrow> string \<Rightarrow> string" where
  "startLinkPass prev s \<equiv>
     fst (replaceAllStringFunc StartLinkRegex (pureRepl startLinkRepl) prev s)"

section \<open>The operating system and the libraries\<close>

text \<open>
  What the program gets from outside is a parameter of the model: the file system
  (\<open>ioutil.ReadFile\<close>, \<open>ioutil.WriteFile\<close>), the path functions \<open>filepath.Join\<close> and
  \<open>filepath.Dir\<close>, the Markdown parser and renderer of \<open>gomarkdown\<close> (one function from
  the Markdown text to the HTML fragment), and the Unicode branch of \<open>strings.ToLower\<close>.
  A Go \<open>error\<close> is either an error of the operating system, with its message, or an
  error wrapped by \<open>fmt.Errorf\<close> with \<open>%w\<close> behind a fixed text.
\<close>

datatype error = OSError string | Wrap string error

fun errorString :: "error \<Rightarrow> string" where
  "errorString (OSError msg) = msg"
| "errorString (Wrap text err) = text @ errorString err"

record os =
  readFile :: "string \<Rightarrow> error + string"
  writeFile :: "string \<Rightarrow> string \<Rightarrow> error option"
  pathJoin :: "string \<Rightarrow> string \<Rightarrow> string"
  pathDir :: "string \<Rightarrow> string"
  render :: "string \<Rightarrow> string"
  unicodeLower :: "string \<Rightarrow> string"

text \<open>
  What the program does to the outside is a list of events, in the order they happen:
  the files it asks to read, the files it asks to write with their contents, and the
  text it prints on standard output.
\<close>

datatype event = ReadFile string | WriteFile string string | Print string

section \<open>MIME types\<close>

text \<open>
  \<open>filepath.Ext\<close> walks back from the end of the path, stops with the empty string at a
  path separator (\<open>/\<close>) and returns the text from the first dot it meets.
  \<open>extLoop\<close> gets the bytes still to visit, last one first, and the bytes already
  passed.
\<close>

fun extLoop :: "string \<Rightarrow> string \<Rightarrow> string" where
  "extLoop [] passed = []"
| "extLoop (c # left) passed =
     (if c = CHR ''/'' then []
      else if c = CHR ''.'' then c # passed
      else extLoop left (c # passed))"

definition ext :: "string \<Rightarrow> string" where
  "ext path = extLoop (rev path) []"

text \<open>
  \<open>strings.ToLower\<close>: a string of ASCII bytes only has its letters \<open>A\<close> to \<open>Z\<close> moved
  to \<open>a\<close> to \<open>z\<close>; any other string goes through the Unicode mapping.
\<close>

definition lowerByte :: "char \<Rightarrow> char" where
  "lowerByte c =
     (if (65::nat) \<le> of_char c \<and> of_char c \<le> (90::nat)
      then char_of (of_char c + (32::nat)) else c)"

definition toLower :: "os \<Rightarrow> string \<Rightarrow> string" where
  "toLower sys s =
     (if list_all (\<lambda>c. of_char c < (128::nat)) s then map lowerByte s
      else unicodeLower sys s)"

definition mimeTypes :: "(string \<times> string) list" where
  "mimeTypes =
     [(''.jpg'', ''image/jpeg''),
      (''.jpeg'', ''image/jpeg''),
      (''.png'', ''image/png''),
      (''.gif'', ''image/gif''),
      (''.bmp'', ''image/bmp''),
      (''.webp'', ''image/webp''),
      (''.svg'', ''image/svg+xml''),
      (''.ico'', ''image/x-icon'')]"

definition getMimeType :: "os \<Rightarrow> string \<Rightarrow> string" where
  "getMimeType sys filename =
     (let e = toLower sys (ext filename)
      in case map_of mimeTypes e of
           Some mime \<Rightarrow> mime
         | None \<Rightarrow> ''image/png'')"

section \<open>Base64\<close>

text \<open>
  \<open>base64.StdEncoding.EncodeToString\<close>: three bytes become a 24-bit value that is cut
  into four 6-bit indices into the alphabet; one or two bytes left over give two or
  three characters and \<open>=\<close> as padding up to four.
\<close>

definition encodeStd :: string where
  "encodeStd = ''ABCDEFGHIJKLMNOPQRSTUVWXYZabcdefghijklmnopqrstuvwxyz0123456789+/''"

definition enc6 :: "nat \<Rightarrow> char" where
  "enc6 v = encodeStd ! (v mod 64)"

fun encodeToString :: "string \<Rightarrow> string" where
  "encodeToString [] = []"
| "encodeToString [a] =
     (let val = of_char a * 65536
      in [enc6 (val div 262144), enc6 (val div 4096), CHR ''='', CHR ''=''])"
| "encodeToString [a, b] =
     (let val = of_char a * 65536 + of_char b * 256
      in [enc6 (val div 262144), enc6 (val div 4096), enc6 (val div 64), CHR ''=''])"
| "encodeToString (a # b # c # src) =
     (let val = of_char a * 65536 + of_char b * 256 + of_char c
      in [enc6 (val div 262144), enc6 (val div 4096), enc6 (val div 64), enc6 val]
         @ encodeToString src)"

text \<open>
  The decoder is not part of the program. It is the standard one the specification
  refers to: the standard alphabet, four characters for three bytes, and a last group
  padded with \<open>=\<close>.
\<close>

fun indexOf :: "'a \<Rightarrow> 'a list \<Rightarrow> nat option" where
  "indexOf x [] = None"
| "indexOf x (y # ys) = (if x = y then Some 0 else map_option Suc (indexOf x ys))"

definition dec6 :: "char \<Rightarrow> nat option" where
  "dec6 c = indexOf c encodeStd"

definition decodeGroup :: "char \<Rightarrow> char \<Rightarrow> char \<Rightarrow> char \<Rightarrow> string option" where
  "decodeGroup a b c d =
     (case (dec6 a, dec6 b, dec6 c, dec6 d) of
        (Some w, Some x, Some y, Some z) \<Rightarrow>
          (let val = w * 262144 + x * 4096 + y * 64 + z
           in Some [char_of (val div 65536), char_of (val div 256), char_of val])
      | _ \<Rightarrow> None)"

definition decodeLast :: "char \<Rightarrow> char \<Rightarrow> char \<Rightarrow> char \<Rightarrow> string option" where
  "decodeLast a b c d =
     (if c = CHR ''='' \<and> d = CHR ''='' then
        (case (dec6 a, dec6 b) of
           (Some w, Some x) \<Rightarrow> Some [char_of ((w * 262144 + x * 4096) div 65536)]
         | _ \<Rightarrow> None)
      else if d = CHR ''='' then
        (case (dec6 a, dec6 b, dec6 c) of
           (Some w, Some x, Some y) \<Rightarrow>
             (let val = w * 262144 + x * 4096 + y * 64
              in Some [char_of (val div 65536), char_of (val div 256)])
         | _ \<Rightarrow> None)
      else decodeGroup a b c d)"

fun decodeString :: "string \<Rightarrow> string option" where
  "decodeString [] = Some []"
| "decodeString [a, b, c, d] = decodeLast a b c d"
| "decodeString (a # b # c # d # s) =
     (case decodeGroup a b c d of
        None \<Rightarrow> None
      | Some bytes \<Rightarrow>
          (case decodeString s of None \<Rightarrow> None | Some others \<Rightarrow> Some (bytes @ others)))"
| "decodeString _ = None"

section \<open>The image embedder\<close>

text \<open>
  The callback of \<open>embedImages\<close> (lines 153 to 188). A target that starts with
  \<open>http://\<close>, \<open>https://\<close> or \<open>data:\<close> gives the matched text back. Any other target is
  joined to the base directory and read: a failed read prints a warning and gives the
  matched text back, a successful one gives the image with a data URI as target.
\<close>

definition imgRepl :: "os \<Rightarrow> string \<Rightarrow> string \<Rightarrow> string \<times> event list" where
  "imgRepl sys baseDir match =
     (case findStringSubmatch ImgRegex match of
        None \<Rightarrow> (match, [])
      | Some parts \<Rightarrow>
          if length parts < 3 then (match, [])
          else
            (let altText = parts ! 1; imgPath = parts ! 2
             in if hasPrefix imgPath ''http://'' \<or> hasPrefix imgPath ''https://''
                   \<or> hasPrefix imgPath ''data:''
                then (match, [])
                else
                  (let fullPath = pathJoin sys baseDir imgPath
                   in case readFile sys fullPath of
                        Inl err \<Rightarrow>
                          (match,
                           [ReadFile fullPath,
                            Print (''Warning: Could not read image '' @ imgPath @ '': ''
                                   @ errorString err @ [CHR 0x0A])])
                      | Inr imgData \<Rightarrow>
                          (let mimeType = getMimeType sys imgPath;
                               base64Data = encodeToString imgData;
                               dataURI = ''data:'' @ mimeType @ '';base64,'' @ base64Data
                           in (''!['' @ altText @ '']('' @ dataURI @ '')'',
                               [ReadFile fullPath])))))"

text \<open>
  \<open>embedImages\<close> returns the new text and an error, which is \<open>nil\<close> (\<open>None\<close>) on its
  only return statement.
\<close>

definition embedImages ::
  "os \<Rightarrow> string \<Rightarrow> string \<Rightarrow> (string \<times> error option) \<times> event list"
where
  "embedImages sys mdContent baseDir =
     (let (result, evs) = replaceAllStringFunc ImgRegex (imgRepl sys baseDir) None mdContent
      in ((result, None), evs))"

section \<open>The document assembler\<close>

text \<open>
  \<open>strings.ReplaceAll\<close> for a pattern that is not empty: every occurrence, from the
  left and without overlap, is replaced. With the empty pattern Go puts the new text
  before every UTF-8 sequence and at the end, which for ASCII text is before every
  byte; the program calls it with the pattern of one space only.
\<close>

function replaceAll :: "string \<Rightarrow> string \<Rightarrow> string \<Rightarrow> string" where
  "replaceAll [] old new = (if old = [] then new else [])"
| "replaceAll (c # s) old new =
     (if old = [] then new @ c # replaceAll s old new
      else if hasPrefix (c # s) old then new @ replaceAll (drop (length old) (c # s)) old new
      else c # replaceAll s old new)"
  by pat_completeness auto
termination
  by (relation "measure (\<lambda>(s, old, new). length s)") auto

text \<open>
  The format string of \<open>createHTMLDocument\<close> has four \<open>%s\<close>: the title, the font name
  for the URL, the font name for the style sheet and the body. The text between them
  is kept in five pieces, line by line as in the source, with \<open>%%\<close> printed as \<open>%\<close>.
\<close>

definition templateHead :: string where
  \<open>templateHead =
     ''<!DOCTYPE html>\<newline>'' @
     ''<html lang="en">\<newline>'' @
     ''<head>\<newline>'' @
     ''    <meta charset="UTF-8">\<newline>'' @
     ''    <meta name="viewport" content="width=device-width, initial-scale=1.0">\<newline>'' @
     ''    <title>''\<close>

definition templateFonts :: string where
  \<open>templateFonts =
     ''</title>\<newline>'' @
     ''    <link rel="preconnect" href="https://fonts.googleapis.com">\<newline>'' @
     ''    <link rel="preconnect" href="https://fonts.gstatic.com" crossorigin>\<newline>'' @
     ''    <link href="https://fonts.googleapis.com/css2?family=''\<close>

definition templateStyle :: string where
  \<open>templateStyle =
     '':wght@300;400;600;700&display=swap" rel="stylesheet">\<newline>'' @
     ''    <style>\<newline>'' @
     ''        * {\<newline>'' @
     ''            margin: 0;\<newline>'' @
     ''            padding: 0;\<newline>'' @
     ''            box-sizing: border-box;\<newline>'' @
     ''        }\<newline>'' @
     ''        \<newline>'' @
     ''        body {\<newline>'' @
     ''            font-family: '' @ [CHR 0x27]\<close>

definition templateRules :: string where
  \<open>templateRules =
     [CHR 0x27] @ '', sans-serif;\<newline>'' @
     ''            line-height: 1.6;\<newline>'' @
     ''            color: #333;\<newline>'' @
     ''            max-width: 800px;\<newline>'' @
     ''            margin: 0 auto;\<newline>'' @
     ''            padding: 2rem;\<newline>'' @
     ''            background-color: #f9f9f9;\<newline>'' @
     ''        }\<newline>'' @
     ''        \<newline>'' @
     ''        h1, h2, h3, h4, h5, h6 {\<newline>'' @
     ''            margin-top: 1.5rem;\<newline>'' @
     ''            margin-bottom: 1rem;\<newline>'' @
     ''            font-weight: 600;\<newline>'' @
     ''            line-height: 1.3;\<newline>'' @
     ''        }\<newline>'' @
     ''        \<newline>'' @
     ''        h1 { font-size: 2.5rem; border-bottom: 2px solid #e0e0e0; padding-bottom: 0.5rem; }\<newline>'' @
     ''        h2 { font-size: 2rem; border-bottom: 1px solid #e0e0e0; padding-bottom: 0.3rem; }\<newline>'' @
     ''        h3 { font-size: 1.5rem; }\<newline>'' @
     ''        h4 { font-size: 1.25rem; }\<newline>'' @
     ''        h5 { font-size: 1.1rem; }\<newline>'' @
     ''        h6 { font-size: 1rem; }\<newline>'' @
     ''        \<newline>'' @
     ''        p {\<newline>'' @
     ''            margin-bottom: 1rem;\<newline>'' @
     ''        }\<newline>'' @
     ''        \<newline>'' @
     ''        a {\<newline>'' @
     ''            color: #0066cc;\<newline>'' @
     ''            text-decoration: none;\<newline>'' @
     ''        }\<newline>'' @
     ''        \<newline>'' @
     ''        a:hover {\<newline>'' @
     ''            text-decoration: underline;\<newline>'' @
     ''        }\<newline>'' @
     ''        \<newline>'' @
     ''        img {\<newline>'' @
     ''            max-width: 100%;\<newline>'' @
     ''            height: auto;\<newline>'' @
     ''            display: block;\<newline>'' @
     ''            margin: 1.5rem auto;\<newline>'' @
     ''            border-radius: 4px;\<newline>'' @
     ''            box-shadow: 0 2px 8px rgba(0,0,0,0.1);\<newline>'' @
     ''        }\<newline>'' @
     ''        \<newline>'' @
     ''        code {\<newline>'' @
     ''            background-color: #f4f4f4;\<newline>'' @
     ''            padding: 0.2rem 0.4rem;\<newline>'' @
     ''            border-radius: 3px;\<newline>'' @
     ''            font-family: 'Courier New', monospace;\<newline>'' @
     ''            font-size: 0.9em;\<newline>'' @
     ''        }\<newline>'' @
     ''        \<newline>'' @
     ''        pre {\<newline>'' @
     ''            background-color: #f4f4f4;\<newline>'' @
     ''            padding: 1rem;\<newline>'' @
     ''            border-radius: 4px;\<newline>'' @
     ''            overflow-x: auto;\<newline>'' @
     ''            margin-bottom: 1rem;\<newline>'' @
     ''        }\<newline>'' @
     ''        \<newline>'' @
     ''        pre code {\<newline>'' @
     ''            background-color: transparent;\<newline>'' @
     ''            padding: 0;\<newline>'' @
     ''        }\<newline>'' @
     ''        \<newline>'' @
     ''        blockquote {\<newline>'' @
     ''            border-left: 4px solid #0066cc;\<newline>'' @
     ''            padding-left: 1rem;\<newline>'' @
     ''            margin: 1rem 0;\<newline>'' @
     ''            color: #666;\<newline>'' @
     ''            font-style: italic;\<newline>'' @
     ''        }\<newline>'' @
     ''        \<newline>'' @
     ''        ul, ol {\<newline>'' @
     ''            margin-bottom: 1rem;\<newline>'' @
     ''            padding-left: 2rem;\<newline>'' @
     ''        }\<newline>'' @
     ''        \<newline>'' @
     ''        li {\<newline>'' @
     ''            margin-bottom: 0.5rem;\<newline>'' @
     ''        }\<newline>'' @
     ''        \<newline>'' @
     ''        table {\<newline>'' @
     ''            border-collapse: collapse;\<newline>'' @
     ''            width: 100%;\<newline>'' @
     ''            margin-bottom: 1rem;\<newline>'' @
     ''        }\<newline>'' @
     ''        \<newline>'' @
     ''        th, td {\<newline>'' @
     ''            border: 1px solid #ddd;\<newline>'' @
     ''            padding: 0.75rem;\<newline>'' @
     ''            text-align: left;\<newline>'' @
     ''        }\<newline>'' @
     ''        \<newline>'' @
     ''        th {\<newline>'' @
     ''            background-color: #f4f4f4;\<newline>'' @
     ''            font-weight: 600;\<newline>'' @
     ''        }\<newline>'' @
     ''        \<newline>'' @
     ''        hr {\<newline>'' @
     ''            border: none;\<newline>'' @
     ''            border-top: 2px solid #e0e0e0;\<newline>'' @
     ''            margin: 2rem 0;\<newline>'' @
     ''        }\<newline>'' @
     ''    </style>\<newline>'' @
     ''</head>\<newline>'' @
     ''<body>\<newline>''\<close>

definition templateEnd :: string where
  \<open>templateEnd =
     ''\<newline>'' @
     ''</body>\<newline>'' @
     ''</html>''\<close>

definition createHTMLDocument :: "string \<Rightarrow> string \<Rightarrow> string \<Rightarrow> string" where
  "createHTMLDocument body fontFamily title =
     (let fontURL = replaceAll fontFamily '' '' ''+''
      in templateHead @ title @ templateFonts @ fontURL @ templateStyle @ fontFamily
         @ templateRules @ body @ templateEnd)"

section \<open>The driver\<close>

text \<open>
  \<open>convertMarkdownToHTML\<close> returns its error (\<open>None\<close> for \<open>nil\<close>) and the events in
  order. The output file is written by one call, after everything else.
\<close>

definition convertMarkdownToHTML ::
  "os \<Rightarrow> string \<Rightarrow> string \<Rightarrow> string \<Rightarrow> string \<Rightarrow> error option \<times> event list"
where
  "convertMarkdownToHTML sys inputFile outputFile fontFamily title =
     (case readFile sys inputFile of
        Inl err \<Rightarrow> (Some (Wrap ''failed to read input file: '' err), [ReadFile inputFile])
      | Inr mdContent \<Rightarrow>
          (let inputDir = pathDir sys inputFile;
               processedContent = rewriteMarkdownLinks mdContent;
               ((processedContent, err), evs) = embedImages sys processedContent inputDir
           in case err of
                Some e \<Rightarrow>
                  (Some (Wrap ''failed to process images: '' e), ReadFile inputFile # evs)
              | None \<Rightarrow>
                  (let htmlBody = render sys processedContent;
                       fullHTML = createHTMLDocument htmlBody fontFamily title;
                       evs' = ReadFile inputFile # evs @ [WriteFile outputFile fullHTML]
                   in case writeFile sys outputFile fullHTML of
                        Some e \<Rightarrow> (Some (Wrap ''failed to write output file: '' e), evs')
                      | None \<Rightarrow> (None, evs'))))"

text \<open>
  \<open>main\<close> after \<open>flag.Parse\<close>: \<open>fontFamily\<close> and \<open>title\<close> are the values of the two flags,
  \<open>args\<close> the remaining arguments. The result is the exit status (0 when \<open>main\<close>
  returns, the argument of \<open>os.Exit\<close> otherwise) and the events.
\<close>

definition usage :: "event list" where
  \<open>usage =
     [Print ''Usage: md2html [--font <font-name>] [--title <title>] <input.md>\<newline>'',
      Print ''Example: md2html file.md\<newline>'',
      Print ''Example: md2html --font 'Roboto' file.md\<newline>'',
      Print ''Example: md2html --title 'My Document' file.md\<newline>'']\<close>

definition main :: "os \<Rightarrow> string \<Rightarrow> string \<Rightarrow> string list \<Rightarrow> nat \<times> event list" where
  "main sys fontFamily title args =
     (case args of
        [] \<Rightarrow> (1, usage)
      | inputFile # _ \<Rightarrow>
          if \<not> hasSuffix inputFile ''.md'' then
            (1, [Print (''Error: Input file must have .md extension'' @ [CHR 0x0A])])
          else
            (let outputFile = trimSuffix inputFile ''.md'' @ ''.html'';
                 (err, evs) = convertMarkdownToHTML sys inputFile outputFile fontFamily title
             in case err of
                  Some e \<Rightarrow> (1, evs @ [Print (''Error: '' @ errorString e @ [CHR 0x0A])])
                | None \<Rightarrow>
                    (0, evs @ [Print (''Successfully converted '' @ inputFile @ '' to ''
                                      @ outputFile @ [CHR 0x0A])])))"

section \<open>An example system\<close>

text \<open>
  A system for concrete runs: the directory \<open>docs\<close> holds \<open>guide.md\<close> and the three
  bytes \<open>abc\<close> as \<open>logo.PNG\<close>; nothing else can be read, every write succeeds, and the
  renderer is the identity.
\<close>

definition exampleOS :: os where
  "exampleOS =
     \<lparr> readFile = (\<lambda>p.
         if p = ''docs/logo.PNG'' then Inr ''abc''
         else if p = ''docs/guide.md''
           then Inr ''[Setup](setup.md) ![Logo](logo.PNG) ![Gone](gone.gif)''
         else Inl (OSError (''open '' @ p @ '': no such file or directory''))),
       writeFile = (\<lambda>p c. None),
       pathJoin = (\<lambda>d p. d @ ''/'' @ p),
       pathDir = (\<lambda>p. rev (drop 1 (dropWhile (\<lambda>c. c \<noteq> CHR ''/'') (rev p)))),
       render = (\<lambda>s. s),
       unicodeLower = (\<lambda>s. s) \<rparr>"

text \<open>The same system with a file system in which every path holds the bytes \<open>abc\<close>.\<close>

definition allReadableOS :: os where
  "allReadableOS = exampleOS \<lparr> readFile := (\<lambda>p. Inr ''abc'') \<rparr>"

section \<open>The target policies in the words of the specification\<close>

text \<open>
  The specification names the targets that a pass leaves alone: a link target that
  starts with \<open>http://\<close>, \<open>https://\<close> or \<open>#\<close>, an image target that starts with
  \<open>http://\<close>, \<open>https://\<close> or \<open>data:\<close>. It names the rewrite of a link target: a final
  \<open>.md\<close> is replaced by \<open>.html\<close>. These definitions are used in the statements only.
\<close>

definition linkTargetKept :: "string \<Rightarrow> bool" where
  "linkTargetKept url =
     (hasPrefix url ''http://'' \<or> hasPrefix url ''https://'' \<or> hasPrefix url ''#'')"

definition imageTargetKept :: "string \<Rightarrow> bool" where
  "imageTargetKept url =
     (hasPrefix url ''http://'' \<or> hasPrefix url ''https://'' \<or> hasPrefix url ''data:'')"

definition mdToHtml :: "string \<Rightarrow> string" where
  "mdToHtml url = (if hasSuffix url ''.md'' then trimSuffix url ''.md'' @ ''.html'' else url)"

text \<open>
  The specification looks the extension up without regard to case. \<open>sameExtension e k\<close>
  says so for an extension \<open>e\<close> as it stands in the target and an entry \<open>k\<close> of the
  table, which is in lower case: the two have the same length, and byte for byte
  \<open>e\<close> has the byte of \<open>k\<close> or the upper-case letter of it (\<open>A\<close> to \<open>Z\<close> are the
  codes 65 to 90, and the lower-case letter is 32 codes further on).
\<close>

definition sameLetter :: "char \<Rightarrow> char \<Rightarrow> bool" where
  "sameLetter c k =
     (c = k \<or> ((65::nat) \<le> of_char c \<and> of_char c \<le> (90::nat)
                \<and> of_char c + (32::nat) = of_char k))"

definition sameExtension :: "string \<Rightarrow> string \<Rightarrow> bool" where
  "sameExtension e k = list_all2 sameLetter e k"

text \<open>The events that ask for a file to be written.\<close>

fun isWrite :: "event \<Rightarrow> bool" where
  "isWrite (WriteFile p c) = True"
| "isWrite _ = False"

section \<open>Matches of the patterns\<close>

lemma bracketed_wholeLink:
  assumes "CHR '']'' \<notin> set text" and "CHR '')'' \<notin> set url" and "url \<noteq> []"
  shows "bracketed (wholeLink text url @ rest) = Some (text, url, rest)"
proof -
  have t1: "takeWhile (\<lambda>x. x \<noteq> CHR '']'') (text @ CHR '']'' # ys) = text" for ys
    using assms(1) by (induction "text") auto
  have d1: "dropWhile (\<lambda>x. x \<noteq> CHR '']'') (text @ CHR '']'' # ys) = CHR '']'' # ys" for ys
    using assms(1) by (induction "text") auto
  have t2: "takeWhile (\<lambda>x. x \<noteq> CHR '')'') (url @ CHR '')'' # ys) = url" for ys
    using assms(2) by (induction url) auto
  have d2: "dropWhile (\<lambda>x. x \<noteq> CHR '')'') (url @ CHR '')'' # ys) = CHR '')'' # ys" for ys
    using assms(2) by (induction url) auto
  show ?thesis
    using assms(3) by (simp add: bracketed_def wholeLink_def t1 d1 t2 d2)
qed

lemma bracketed_SomeD:
  assumes "bracketed s = Some (text, url, rest)"
  shows "s = wholeLink text url @ rest" and "CHR '']'' \<notin> set text"
    and "CHR '')'' \<notin> set url" and "url \<noteq> []"
proof -
  from assms obtain s1 where s: "s = CHR ''['' # s1"
    by (cases s) (auto simp: bracketed_def split: if_splits)
  from assms s obtain c1 c2 s3 where s2: "dropWhile (\<lambda>x. x \<noteq> CHR '']'') s1 = c1 # c2 # s3"
    and c: "c1 = CHR '']''" "c2 = CHR ''(''" and t: "text = takeWhile (\<lambda>x. x \<noteq> CHR '']'') s1"
    by (auto simp: bracketed_def Let_def split: if_splits list.splits)
  from assms s s2 c obtain c3 where s4: "dropWhile (\<lambda>x. x \<noteq> CHR '')'') s3 = c3 # rest"
    and u: "url = takeWhile (\<lambda>x. x \<noteq> CHR '')'') s3" and ne: "url \<noteq> []"
    by (auto simp: bracketed_def Let_def split: if_splits list.splits)
  have c3: "c3 = CHR '')''"
    using hd_dropWhile[of "\<lambda>x. x \<noteq> CHR '')''" s3] s4 by auto
  have "s1 = text @ c1 # c2 # s3"
    using takeWhile_dropWhile_id[of "\<lambda>x. x \<noteq> CHR '']''" s1] s2 t by simp
  moreover have "s3 = url @ c3 # rest"
    using takeWhile_dropWhile_id[of "\<lambda>x. x \<noteq> CHR '')''" s3] s4 u by simp
  ultimately show "s = wholeLink text url @ rest"
    using s c c3 by (simp add: wholeLink_def)
  show "CHR '']'' \<notin> set text" using t by (auto dest: set_takeWhileD)
  show "CHR '')'' \<notin> set url" using u by (auto dest: set_takeWhileD)
  show "url \<noteq> []" by (rule ne)
qed

lemma bracketed_empty_target:
  assumes "CHR '']'' \<notin> set text"
  shows "bracketed (''['' @ text @ '']()'' @ rest) = None"
proof -
  have t1: "takeWhile (\<lambda>x. x \<noteq> CHR '']'') (text @ CHR '']'' # ys) = text" for ys
    using assms(1) by (induction "text") auto
  have d1: "dropWhile (\<lambda>x. x \<noteq> CHR '']'') (text @ CHR '']'' # ys) = CHR '']'' # ys" for ys
    using assms(1) by (induction "text") auto
  show ?thesis
    by (simp add: bracketed_def t1 d1)
qed

lemma bracketed_not_open: "s = [] \<or> hd s \<noteq> CHR ''['' \<Longrightarrow> bracketed s = None"
  by (cases s) (auto simp: bracketed_def)


lemma findFrom_unfold:
  "findFrom re prev s =
     (case match_at re prev s of
        Some (m, groups, rest) \<Rightarrow> Some (m # groups)
      | None \<Rightarrow> (case s of [] \<Rightarrow> None | c # s' \<Rightarrow> findFrom re (Some c) s'))"
  by (cases s) (auto split: option.splits)

lemma match_at_link:
  assumes "c \<noteq> CHR ''!''" and "CHR '']'' \<notin> set t" and "CHR '')'' \<notin> set u" and "u \<noteq> []"
  shows "match_at LinkRegex prev (c # wholeLink t u @ rest)
           = Some (c # wholeLink t u, [[c], t, u], rest)"
  using assms by (simp add: bracketed_wholeLink)

lemma match_at_startLink:
  assumes "prev = None \<or> prev = Some (CHR 0x0A)"
    and "CHR '']'' \<notin> set t" and "CHR '')'' \<notin> set u" and "u \<noteq> []"
  shows "match_at StartLinkRegex prev (wholeLink t u @ rest)
           = Some (wholeLink t u, [t, u], rest)"
  using assms by (auto simp add: bracketed_wholeLink)

lemma match_at_img:
  assumes "CHR '']'' \<notin> set t" and "CHR '')'' \<notin> set u" and "u \<noteq> []"
  shows "match_at ImgRegex prev (CHR ''!'' # wholeLink t u @ rest)
           = Some (CHR ''!'' # wholeLink t u, [t, u], rest)"
  using assms by (simp add: bracketed_wholeLink)

lemma findStringSubmatch_link:
  assumes "c \<noteq> CHR ''!''" and "CHR '']'' \<notin> set t" and "CHR '')'' \<notin> set u" and "u \<noteq> []"
  shows "findStringSubmatch LinkRegex (c # wholeLink t u) = Some [c # wholeLink t u, [c], t, u]"
  using match_at_link[OF assms, of None "[]"]
  by (simp add: findStringSubmatch_def del: match_at.simps)

lemma findStringSubmatch_startLink:
  assumes "CHR '']'' \<notin> set t" and "CHR '')'' \<notin> set u" and "u \<noteq> []"
  shows "findStringSubmatch StartLinkRegex (wholeLink t u) = Some [wholeLink t u, t, u]"
  using match_at_startLink[OF _ assms, of None "[]"]
  by (simp add: findStringSubmatch_def findFrom_unfold[of _ _ "wholeLink t u"] del: match_at.simps)

lemma findStringSubmatch_img:
  assumes "CHR '']'' \<notin> set t" and "CHR '')'' \<notin> set u" and "u \<noteq> []"
  shows "findStringSubmatch ImgRegex (CHR ''!'' # wholeLink t u)
           = Some [CHR ''!'' # wholeLink t u, t, u]"
  using match_at_img[OF assms, of None "[]"]
  by (simp add: findStringSubmatch_def del: match_at.simps)

lemma linkRepl_match:
  assumes "c \<noteq> CHR ''!''" and "CHR '']'' \<notin> set t" and "CHR '')'' \<notin> set u" and "u \<noteq> []"
  shows "linkRepl (c # wholeLink t u)
           = c # wholeLink t (if linkTargetKept u then u else mdToHtml u)"
  unfolding linkRepl_def findStringSubmatch_link[OF assms]
  by (simp add: linkTargetKept_def mdToHtml_def wholeLink_def)

lemma startLinkRepl_match:
  assumes "CHR '']'' \<notin> set t" and "CHR '')'' \<notin> set u" and "u \<noteq> []"
  shows "startLinkRepl (wholeLink t u)
           = wholeLink t (if linkTargetKept u then u else mdToHtml u)"
  unfolding startLinkRepl_def findStringSubmatch_startLink[OF assms]
  by (simp add: linkTargetKept_def mdToHtml_def wholeLink_def)

lemma imgRepl_match:
  assumes "CHR '']'' \<notin> set t" and "CHR '')'' \<notin> set u" and "u \<noteq> []"
  shows "imgRepl sys baseDir (CHR ''!'' # wholeLink t u)
           = (if imageTargetKept u then (CHR ''!'' # wholeLink t u, [])
              else (case readFile sys (pathJoin sys baseDir u) of
                      Inl err \<Rightarrow>
                        (CHR ''!'' # wholeLink t u,
                         [ReadFile (pathJoin sys baseDir u),
                          Print (''Warning: Could not read image '' @ u @ '': ''
                                 @ errorString err @ [CHR 0x0A])])
                    | Inr imgData \<Rightarrow>
                        (CHR ''!'' # wholeLink t
                           (''data:'' @ getMimeType sys u @ '';base64,'' @ encodeToString imgData),
                         [ReadFile (pathJoin sys baseDir u)])))"
  unfolding imgRepl_def findStringSubmatch_img[OF assms]
  by (simp add: imageTargetKept_def wholeLink_def split: sum.splits)

lemma last_wholeLink: "last (wholeLink t u) = CHR '')''" "last (c # wholeLink t u) = CHR '')''"
  by (simp_all add: wholeLink_def)

lemma replaceAllStringFunc_match:
  assumes "match_at re prev s = Some (m, groups, rest)"
  shows "replaceAllStringFunc re repl prev s
           = (fst (repl m) @ fst (replaceAllStringFunc re repl (Some (last m)) rest),
              snd (repl m) @ snd (replaceAllStringFunc re repl (Some (last m)) rest))"
proof (cases s)
  case Nil
  have "bracketed [] = None" by (simp add: bracketed_def)
  with Nil assms show ?thesis by (cases re) (simp_all split: if_splits)
next
  case (Cons c s')
  with assms show ?thesis
    by (simp add: case_prod_beta del: match_at.simps)
qed

lemma replaceAllStringFunc_no_match:
  assumes "match_at re prev (c # s) = None"
  shows "replaceAllStringFunc re repl prev (c # s)
           = (c # fst (replaceAllStringFunc re repl (Some c) s),
              snd (replaceAllStringFunc re repl (Some c) s))"
  using assms by (simp add: case_prod_beta del: match_at.simps)

declare replaceAllStringFunc.simps(2) [simp del]
declare match_at.simps [simp del]

declare scanStates.simps(2) [simp del]

lemma scan_from_state:
  "(prev', s') \<in> set (scanStates re prev s) \<Longrightarrow>
     \<exists>out evs. replaceAllStringFunc re repl prev s
        = (out @ fst (replaceAllStringFunc re repl prev' s'),
           evs @ snd (replaceAllStringFunc re repl prev' s'))"
proof (induction re prev s rule: scanStates.induct)
  case (1 re prev)
  then show ?case by simp
next
  case (2 re prev c s)
  show ?case
  proof (cases "(prev', s') = (prev, c # s)")
    case True
    then have "replaceAllStringFunc re repl prev (c # s)
        = ([] @ fst (replaceAllStringFunc re repl prev' s'),
           [] @ snd (replaceAllStringFunc re repl prev' s'))"
      by simp
    then show ?thesis by blast
  next
    case False
    show ?thesis
    proof (cases "match_at re prev (c # s)")
      case None
      with False "2.prems" have "(prev', s') \<in> set (scanStates re (Some c) s)"
        by (auto simp: scanStates.simps(2))
      from "2.IH"(1)[OF None this] obtain out evs where
        "replaceAllStringFunc re repl (Some c) s
           = (out @ fst (replaceAllStringFunc re repl prev' s'),
              evs @ snd (replaceAllStringFunc re repl prev' s'))"
        by blast
      with replaceAllStringFunc_no_match[OF None, of repl]
      have "replaceAllStringFunc re repl prev (c # s)
           = ((c # out) @ fst (replaceAllStringFunc re repl prev' s'),
              evs @ snd (replaceAllStringFunc re repl prev' s'))"
        by simp
      then show ?thesis by blast
    next
      case (Some r)
      obtain m groups rest where r: "r = (m, groups, rest)" by (cases r) auto
      with Some have ma: "match_at re prev (c # s) = Some (m, groups, rest)" by simp
      with False "2.prems" have "(prev', s') \<in> set (scanStates re (Some (last m)) rest)"
        by (auto simp: scanStates.simps(2))
      from "2.IH"(2)[OF Some r[symmetric] refl this] obtain out evs where
        "replaceAllStringFunc re repl (Some (last m)) rest
           = (out @ fst (replaceAllStringFunc re repl prev' s'),
              evs @ snd (replaceAllStringFunc re repl prev' s'))"
        by blast
      with replaceAllStringFunc_match[OF ma, of repl]
      have "replaceAllStringFunc re repl prev (c # s)
           = ((fst (repl m) @ out) @ fst (replaceAllStringFunc re repl prev' s'),
              (snd (repl m) @ evs) @ snd (replaceAllStringFunc re repl prev' s'))"
        by simp
      then show ?thesis by blast
    qed
  qed
qed


lemma output_at_state:
  assumes "(prev, s) \<in> set (scanStates re None mdContent)"
    and "replaceAllStringFunc re repl prev s = (a @ fst R, e @ snd R)"
  shows "\<exists>out evs. replaceAllStringFunc re repl None mdContent
           = (out @ a @ fst R, evs @ e @ snd R)"
proof -
  from scan_from_state[OF assms(1), of repl] obtain out evs where
    "replaceAllStringFunc re repl None mdContent
       = (out @ fst (replaceAllStringFunc re repl prev s),
          evs @ snd (replaceAllStringFunc re repl prev s))"
    by blast
  then have "replaceAllStringFunc re repl None mdContent
       = (out @ a @ fst R, evs @ e @ snd R)"
    by (simp add: assms(2))
  then show ?thesis by blast
qed

lemma link_scan_single: "replaceAllStringFunc LinkRegex repl prev [c] = ([c], [])"
  by (simp add: replaceAllStringFunc.simps(2) match_at.simps bracketed_def)





lemma link_scan_prev:
  "replaceAllStringFunc LinkRegex repl prev s = replaceAllStringFunc LinkRegex repl prev' s"
  by (cases s) (simp_all add: replaceAllStringFunc.simps(2) match_at.simps)

lemma link_scan_no_open:
  "CHR ''['' \<notin> set ys \<Longrightarrow>
     fst (replaceAllStringFunc LinkRegex repl prev (c # ys @ s))
       = butlast (c # ys) @ fst (replaceAllStringFunc LinkRegex repl prev' (last (c # ys) # s))"
proof (induction ys arbitrary: c prev)
  case Nil
  show ?case using link_scan_prev[of repl prev "c # s" prev'] by simp
next
  case (Cons y ys)
  have "bracketed (y # ys @ s) = None"
    using Cons.prems bracketed_not_open[of "y # ys @ s"] by auto
  then have "match_at LinkRegex prev (c # y # ys @ s) = None" by (simp add: match_at.simps)
  from replaceAllStringFunc_no_match[OF this, of repl] Cons.IH[of "Some c" y] Cons.prems
  show ?case by simp
qed

lemma link_scan_keeps_first:
  "\<exists>out. fst (replaceAllStringFunc LinkRegex (pureRepl linkRepl) prev (c # s)) = c # out"
proof (cases "match_at LinkRegex prev (c # s)")
  case None
  from replaceAllStringFunc_no_match[OF this, of "pureRepl linkRepl"] show ?thesis by simp
next
  case (Some r)
  then obtain m groups rest where r: "match_at LinkRegex prev (c # s) = Some (m, groups, rest)"
    by (cases r) auto
  then obtain t u where c: "c \<noteq> CHR ''!''" and b: "bracketed s = Some (t, u, rest)"
    and m: "m = c # wholeLink t u"
    by (auto simp: match_at.simps split: if_splits option.splits)
  from linkRepl_match[OF c bracketed_SomeD(2-4)[OF b]] m
  have "\<exists>out. linkRepl m = c # out" by simp
  with replaceAllStringFunc_match[OF r, of "pureRepl linkRepl"] show ?thesis
    by (auto simp: pureRepl_def)
qed


section \<open>Base64 decoding inverts encoding\<close>

lemma indexOf_nth: "distinct xs \<Longrightarrow> i < length xs \<Longrightarrow> indexOf (xs ! i) xs = Some i"
proof (induction xs arbitrary: i)
  case Nil
  then show ?case by simp
next
  case (Cons y ys)
  show ?case
  proof (cases i)
    case 0
    then show ?thesis by simp
  next
    case (Suc j)
    with Cons.prems have "ys ! j \<in> set ys" "y \<notin> set ys" by auto
    then have "ys ! j \<noteq> y" by auto
    with Suc Cons show ?thesis by simp
  qed
qed

lemma length_encodeStd: "length encodeStd = 64"
  by (simp add: encodeStd_def)

lemma distinct_encodeStd: "distinct encodeStd"
  by (simp add: encodeStd_def)

lemma dec6_enc6: "dec6 (enc6 v) = Some (v mod 64)"
  unfolding dec6_def enc6_def
  by (rule indexOf_nth) (simp_all add: distinct_encodeStd length_encodeStd)

lemma enc6_not_pad: "enc6 v \<noteq> CHR ''=''"
proof -
  have "enc6 v \<in> set encodeStd"
    unfolding enc6_def by (rule nth_mem) (simp add: length_encodeStd)
  moreover have "CHR ''='' \<notin> set encodeStd" by (simp add: encodeStd_def)
  ultimately show ?thesis by auto
qed

lemma sextets_value:
  assumes "(val::nat) < 16777216"
  shows "val div 262144 mod 64 * 262144 + val div 4096 mod 64 * 4096
           + val div 64 mod 64 * 64 + val mod 64 = val"
proof -
  have a: "val mod 4096 = 64 * (val div 64 mod 64) + val mod 64"
    using mod_mult2_eq[of val 64 64] by simp
  have b: "val mod 262144 = 4096 * (val div 4096 mod 64) + val mod 4096"
    using mod_mult2_eq[of val 4096 64] by simp
  have c: "val mod 16777216 = 262144 * (val div 262144 mod 64) + val mod 262144"
    using mod_mult2_eq[of val 262144 64] by simp
  have "val mod 16777216 = val" using assms by simp
  with a b c show ?thesis by simp
qed

lemma split_bytes:
  assumes "(b::nat) < 256" and "(c::nat) < 256"
  shows "(a * 65536 + b * 256 + c) div 65536 = a"
    and "(a * 65536 + b * 256 + c) div 256 mod 256 = b"
    and "(a * 65536 + b * 256 + c) mod 256 = c"
proof -
  have "b * 256 + c < 65536" using assms by linarith
  then show "(a * 65536 + b * 256 + c) div 65536 = a"
    by (simp add: add.assoc)
  have "(a * 65536 + b * 256 + c) div 256 = a * 256 + b"
    using assms(2) by simp
  then show "(a * 65536 + b * 256 + c) div 256 mod 256 = b"
    using assms(1) by simp
  have "a * 65536 + b * 256 + c = c + (a * 256 + b) * 256" by simp
  then have "(a * 65536 + b * 256 + c) mod 256 = c mod 256"
    by (simp only: mod_mult_self1)
  then show "(a * 65536 + b * 256 + c) mod 256 = c"
    using assms(2) by simp
qed


lemma decodeGroup_encoded:
  fixes a b c :: char
  defines "val \<equiv> (of_char a :: nat) * 65536 + of_char b * 256 + of_char c"
  shows "decodeGroup (enc6 (val div 262144)) (enc6 (val div 4096)) (enc6 (val div 64)) (enc6 val)
           = Some [a, b, c]"
proof -
  have lb: "(of_char b :: nat) < 256" and lc: "(of_char c :: nat) < 256" by simp_all
  have "(of_char a :: nat) < 256" by simp
  with lb lc have v: "val < 16777216" unfolding val_def by linarith
  have "char_of (val div 65536) = a"
    using split_bytes(1)[OF lb lc, of "of_char a"] by (simp add: val_def)
  moreover have "char_of (val div 256 mod 256) = b"
    using split_bytes(2)[OF lb lc, of "of_char a"] by (simp add: val_def)
  then have "char_of (val div 256) = b" by simp
  moreover have "char_of (val mod 256) = c"
    using split_bytes(3)[OF lb lc, of "of_char a"] by (simp add: val_def)
  then have "char_of val = c" by simp
  ultimately show ?thesis
    unfolding decodeGroup_def dec6_enc6
    by (simp only: prod.case option.case Let_def sextets_value[OF v])
qed

lemma decodeLast_full:
  "decodeLast (enc6 w) (enc6 x) (enc6 y) (enc6 z)
     = decodeGroup (enc6 w) (enc6 x) (enc6 y) (enc6 z)"
  by (simp add: decodeLast_def enc6_not_pad)

lemma decodeLast_two:
  fixes a b :: char
  defines "val \<equiv> (of_char a :: nat) * 65536 + of_char b * 256"
  shows "decodeLast (enc6 (val div 262144)) (enc6 (val div 4096)) (enc6 (val div 64)) (CHR ''='')
           = Some [a, b]"
proof -
  have la: "(of_char a :: nat) < 256" and lb: "(of_char b :: nat) < 256" by simp_all
  then have v: "val < 16777216" unfolding val_def by linarith
  have "val = (of_char a * 1024 + of_char b * 4) * 64" unfolding val_def by simp
  then have "val mod 64 = 0" by (simp only: mod_mult_self2_is_0)
  with sextets_value[OF v]
  have e: "val div 262144 mod 64 * 262144 + val div 4096 mod 64 * 4096
             + val div 64 mod 64 * 64 = val"
    by (simp only: add_0_right)
  have "char_of (val div 65536) = a"
    using split_bytes(1)[OF lb, of 0 "of_char a"] by (simp add: val_def)
  moreover have "char_of (val div 256 mod 256) = b"
    using split_bytes(2)[OF lb, of 0 "of_char a"] by (simp add: val_def)
  then have "char_of (val div 256) = b" by simp
  ultimately show ?thesis
    unfolding decodeLast_def dec6_enc6
    by (simp only: prod.case option.case Let_def e enc6_not_pad simp_thms if_False if_True)
qed

lemma decodeLast_one:
  fixes a :: char
  defines "val \<equiv> (of_char a :: nat) * 65536"
  shows "decodeLast (enc6 (val div 262144)) (enc6 (val div 4096)) (CHR ''='') (CHR ''='')
           = Some [a]"
proof -
  have la: "(of_char a :: nat) < 256" by simp
  then have v: "val < 16777216" unfolding val_def by linarith
  have "val = (of_char a * 1024) * 64" unfolding val_def by simp
  then have "val mod 64 = 0" by (simp only: mod_mult_self2_is_0)
  moreover have "val div 64 = (of_char a * 16) * 64" unfolding val_def by simp
  then have "val div 64 mod 64 = 0" by (simp only: mod_mult_self2_is_0)
  ultimately have e: "val div 262144 mod 64 * 262144 + val div 4096 mod 64 * 4096 = val"
    using sextets_value[OF v] by (simp only: add_0_right mult_zero_left)
  have "val div 65536 = of_char a" unfolding val_def by simp
  then have "char_of (val div 65536) = a" by simp
  then show ?thesis
    unfolding decodeLast_def dec6_enc6
    by (simp only: prod.case option.case e simp_thms if_True)
qed

lemma encodeToString_quads:
  "encodeToString src = [] \<or> (\<exists>w x y z s. encodeToString src = w # x # y # z # s)"
  by (induction src rule: encodeToString.induct) (simp_all add: Let_def)

lemma decodeString_group:
  assumes "decodeGroup w x y z = Some bytes" and "decodeLast w x y z = Some bytes"
    and "decodeString s = Some others"
    and "s = [] \<Longrightarrow> others = []"
  shows "decodeString (w # x # y # z # s) = Some (bytes @ others)"
  using assms by (cases s) simp_all

lemma decodeString_encodeToString: "decodeString (encodeToString src) = Some src"
proof (induction src rule: encodeToString.induct)
  case 1
  show ?case by simp
next
  case (2 a)
  show ?case using decodeLast_one[of a] by (simp add: Let_def)
next
  case (3 a b)
  show ?case using decodeLast_two[of a b] by (simp add: Let_def)
next
  case (4 a b c src)
  let ?val = "(of_char a :: nat) * 65536 + of_char b * 256 + of_char c"
  have g: "decodeGroup (enc6 (?val div 262144)) (enc6 (?val div 4096)) (enc6 (?val div 64))
             (enc6 ?val) = Some [a, b, c]"
    by (rule decodeGroup_encoded)
  have l: "decodeLast (enc6 (?val div 262144)) (enc6 (?val div 4096)) (enc6 (?val div 64))
             (enc6 ?val) = Some [a, b, c]"
    using g by (simp add: decodeLast_full)
  have e: "encodeToString src = [] \<Longrightarrow> src = []"
    by (cases src rule: encodeToString.cases) (simp_all add: Let_def)
  show ?case
    using decodeString_group[OF g l "4.IH", of ] e
    by (simp add: Let_def del: decodeString.simps)
qed

section \<open>The image scan and the driver\<close>

lemma img_scan_step:
  assumes "CHR '']'' \<notin> set t" and "CHR '')'' \<notin> set u" and "u \<noteq> []"
  shows "replaceAllStringFunc ImgRegex (imgRepl sys baseDir) prev
           (''!['' @ t @ '']('' @ u @ '')'' @ rest)
         = (fst (imgRepl sys baseDir (''!['' @ t @ '']('' @ u @ '')''))
              @ fst (replaceAllStringFunc ImgRegex (imgRepl sys baseDir) (Some (CHR '')'')) rest),
            snd (imgRepl sys baseDir (''!['' @ t @ '']('' @ u @ '')''))
              @ snd (replaceAllStringFunc ImgRegex (imgRepl sys baseDir) (Some (CHR '')'')) rest))"
  using replaceAllStringFunc_match[OF match_at_img[OF assms, of prev rest],
          of "imgRepl sys baseDir"]
  by (simp add: wholeLink_def)

lemma getMimeType_table:
  "getMimeType sys filename =
     (let e = toLower sys (ext filename)
      in if e = ''.jpg'' \<or> e = ''.jpeg'' then ''image/jpeg''
         else if e = ''.png'' then ''image/png''
         else if e = ''.gif'' then ''image/gif''
         else if e = ''.bmp'' then ''image/bmp''
         else if e = ''.webp'' then ''image/webp''
         else if e = ''.svg'' then ''image/svg+xml''
         else if e = ''.ico'' then ''image/x-icon''
         else ''image/png'')"
  by (simp add: getMimeType_def mimeTypes_def Let_def)

lemma imgRepl_no_write: "\<not> list_ex isWrite (snd (imgRepl sys baseDir m))"
  by (simp add: imgRepl_def Let_def split: option.splits sum.splits)

lemma img_scan_no_write:
  "\<not> list_ex isWrite (snd (replaceAllStringFunc ImgRegex (imgRepl sys baseDir) prev s))"
proof (induction "ImgRegex" "imgRepl sys baseDir" prev s rule: replaceAllStringFunc.induct)
  case (1 prev)
  show ?case by simp
next
  case (2 prev c s)
  show ?case
  proof (cases "match_at ImgRegex prev (c # s)")
    case None
    with 2(1) show ?thesis
      by (simp add: replaceAllStringFunc.simps(2) case_prod_beta)
  next
    case (Some r)
    obtain m groups rest where r: "r = (m, groups, rest)" by (cases r) auto
    obtain new evs1 where n: "imgRepl sys baseDir m = (new, evs1)"
      by (cases "imgRepl sys baseDir m") auto
    from imgRepl_no_write[of sys baseDir m] n have "\<not> list_ex isWrite evs1" by simp
    with 2(2)[OF Some r[symmetric] refl refl n[symmetric]] Some r n show ?thesis
      by (simp add: replaceAllStringFunc.simps(2) case_prod_beta)
  qed
qed

lemma embedImages_result:
  "embedImages sys mdContent baseDir
     = ((fst (replaceAllStringFunc ImgRegex (imgRepl sys baseDir) None mdContent), None),
        snd (replaceAllStringFunc ImgRegex (imgRepl sys baseDir) None mdContent))"
  by (simp add: embedImages_def case_prod_beta)

lemma embedImages_at_state:
  assumes "(prev, s) \<in> set (scanStates ImgRegex None mdContent)"
    and "replaceAllStringFunc ImgRegex (imgRepl sys baseDir) prev s = (a @ fst R, e @ snd R)"
  shows "\<exists>out evs. embedImages sys mdContent baseDir
           = ((out @ a @ fst R, None), evs @ e @ snd R)"
proof -
  from output_at_state[OF assms] obtain out evs where
    "replaceAllStringFunc ImgRegex (imgRepl sys baseDir) None mdContent
       = (out @ a @ fst R, evs @ e @ snd R)"
    by blast
  then have "embedImages sys mdContent baseDir = ((out @ a @ fst R, None), evs @ e @ snd R)"
    by (simp add: embedImages_result)
  then show ?thesis by blast
qed

lemma convertMarkdownToHTML_read_ok:
  assumes "readFile sys inputFile = Inr mdContent"
  shows "convertMarkdownToHTML sys inputFile outputFile fontFamily title
           = (let body = fst (fst (embedImages sys (rewriteMarkdownLinks mdContent)
                                     (pathDir sys inputFile)));
                  evs = snd (embedImages sys (rewriteMarkdownLinks mdContent)
                               (pathDir sys inputFile));
                  fullHTML = createHTMLDocument (render sys body) fontFamily title
              in (case writeFile sys outputFile fullHTML of
                    Some e \<Rightarrow> Some (Wrap ''failed to write output file: '' e)
                  | None \<Rightarrow> None,
                  ReadFile inputFile # evs @ [WriteFile outputFile fullHTML]))"
  using assms
  by (simp add: convertMarkdownToHTML_def embedImages_result Let_def split: option.splits)

lemma convertMarkdownToHTML_writes:
  "WriteFile p c \<in> set (snd (convertMarkdownToHTML sys inputFile outputFile fontFamily title))
     \<Longrightarrow> p = outputFile"
proof (cases "readFile sys inputFile")
  case (Inl err)
  assume "WriteFile p c \<in> set (snd (convertMarkdownToHTML sys inputFile outputFile fontFamily title))"
  with Inl show ?thesis by (simp add: convertMarkdownToHTML_def)
next
  case (Inr mdContent)
  assume w: "WriteFile p c \<in> set (snd (convertMarkdownToHTML sys inputFile outputFile fontFamily title))"
  have "\<not> list_ex isWrite (snd (embedImages sys (rewriteMarkdownLinks mdContent)
                                 (pathDir sys inputFile)))"
    by (simp add: embedImages_result img_scan_no_write)
  then have "WriteFile p c \<notin> set (snd (embedImages sys (rewriteMarkdownLinks mdContent)
                                         (pathDir sys inputFile)))"
    by (auto simp: list_ex_iff)
  with w show ?thesis
    unfolding convertMarkdownToHTML_read_ok[OF Inr] by (auto simp: Let_def)
qed

lemma main_md:
  assumes "hasSuffix inputFile ''.md''"
  shows "main sys fontFamily title (inputFile # others)
           = (let outputFile = trimSuffix inputFile ''.md'' @ ''.html'';
                  r = convertMarkdownToHTML sys inputFile outputFile fontFamily title
              in case fst r of
                   Some e \<Rightarrow> (1, snd r @ [Print (''Error: '' @ errorString e @ [CHR 0x0A])])
                 | None \<Rightarrow>
                     (0, snd r @ [Print (''Successfully converted '' @ inputFile @ '' to ''
                                         @ outputFile @ [CHR 0x0A])]))"
  using assms by (simp add: main_def Let_def case_prod_beta)

lemma hasSuffix_md:
  "hasSuffix s ''.md'' \<longleftrightarrow> 3 \<le> length s \<and> drop (length s - 3) s = ''.md''"
  by (simp add: hasSuffix_def numeral_3_eq_3)

lemma trimSuffix_md:
  "hasSuffix s ''.md'' \<Longrightarrow> trimSuffix s ''.md'' = take (length s - 3) s"
  by (simp add: trimSuffix_def numeral_3_eq_3)

lemma hasPrefix_appendI: "hasPrefix xs p \<Longrightarrow> hasPrefix (xs @ ys) p"
  by (simp add: hasPrefix_def)

lemma hasSuffix_appendI:
  assumes "hasSuffix ys suf"
  shows "hasSuffix (xs @ ys) suf"
proof -
  from assms have le: "length suf \<le> length ys"
    and d: "drop (length ys - length suf) ys = suf"
    by (simp_all add: hasSuffix_def)
  from le have "length (xs @ ys) - length suf = length xs + (length ys - length suf)"
    by simp
  with le d show ?thesis by (simp add: hasSuffix_def)
qed

lemma replaceAll_space:
  "replaceAll s '' '' ''+'' = map (\<lambda>c. if c = CHR '' '' then CHR ''+'' else c) s"
  by (induction s) (simp_all add: hasPrefix_def)

section \<open>Spans with an empty target\<close>

lemma bracketed_before_empty_target:
  assumes "CHR '']'' \<notin> set ys"
  shows "bracketed (ys @ '']()'' @ rest) = None"
proof (cases ys)
  case Nil
  then show ?thesis by (simp add: bracketed_def)
next
  case (Cons y ys')
  show ?thesis
  proof (cases "y = CHR ''[''")
    case True
    from assms Cons have "CHR '']'' \<notin> set ys'" by simp
    from bracketed_empty_target[OF this, of rest] True Cons show ?thesis by simp
  next
    case False
    with Cons show ?thesis by (simp add: bracketed_def)
  qed
qed

lemma scan_over_empty_target:
  assumes "CHR '']'' \<notin> set ys" and "re \<noteq> LinkRegex"
  shows "replaceAllStringFunc re repl prev (ys @ '']()'' @ rest)
           = (ys @ '']()'' @ fst (replaceAllStringFunc re repl (Some (CHR '')'')) rest),
              snd (replaceAllStringFunc re repl (Some (CHR '')'')) rest))"
  using assms(1)
proof (induction ys arbitrary: prev)
  case Nil
  have b: "bracketed ('']()'' @ rest) = None" "bracketed (''()'' @ rest) = None"
    "bracketed ('')'' @ rest) = None"
    by (simp_all add: bracketed_def)
  have 1: "match_at re prev ('']()'' @ rest) = None"
    using assms(2) b by (cases re) (simp_all add: match_at.simps)
  have 2: "match_at re (Some (CHR '']'')) (''()'' @ rest) = None"
    using assms(2) b by (cases re) (simp_all add: match_at.simps)
  have 3: "match_at re (Some (CHR ''('')) ('')'' @ rest) = None"
    using assms(2) b by (cases re) (simp_all add: match_at.simps)
  show ?case
    using replaceAllStringFunc_no_match[of re prev "CHR '']''" "''()'' @ rest" repl]
      replaceAllStringFunc_no_match[of re "Some (CHR '']'')" "CHR ''(''" "'')'' @ rest" repl]
      replaceAllStringFunc_no_match[of re "Some (CHR ''('')" "CHR '')''" rest repl]
      1 2 3
    by simp
next
  case (Cons y ys)
  then have n: "CHR '']'' \<notin> set ys" by simp
  have "match_at re prev (y # ys @ '']()'' @ rest) = None"
    using assms(2) bracketed_before_empty_target[OF n, of rest]
      bracketed_before_empty_target[OF Cons.prems, of rest]
    by (cases re) (simp_all add: match_at.simps)
  from replaceAllStringFunc_no_match[OF this, of repl] Cons.IH[OF n, of "Some y"]
  show ?case by simp
qed

lemma link_scan_over_empty_target:
  assumes "CHR '']'' \<notin> set ys"
  shows "\<exists>out. fst (replaceAllStringFunc LinkRegex (pureRepl linkRepl) prev
                      (ys @ '']()'' @ rest)) = ys @ '']()'' @ out
               \<and> (rest = [] \<longrightarrow> out = [])"
  using assms
proof (induction ys arbitrary: prev)
  case Nil
  have 1: "match_at LinkRegex prev ('']()'' @ rest) = None"
    by (simp add: match_at.simps bracketed_def)
  have 2: "match_at LinkRegex (Some (CHR '']'')) (''()'' @ rest) = None"
    by (simp add: match_at.simps bracketed_def)
  obtain out where o: "fst (replaceAllStringFunc LinkRegex (pureRepl linkRepl)
                              (Some (CHR ''('')) (CHR '')'' # rest)) = CHR '')'' # out"
    using link_scan_keeps_first[of "Some (CHR ''('')" "CHR '')''" rest] by blast
  have e: "rest = [] \<longrightarrow> out = []"
    using o by (auto simp: link_scan_single)
  show ?case
    using replaceAllStringFunc_no_match[of LinkRegex prev "CHR '']''" "''()'' @ rest"
            "pureRepl linkRepl"]
      replaceAllStringFunc_no_match[of LinkRegex "Some (CHR '']'')" "CHR ''(''" "'')'' @ rest"
            "pureRepl linkRepl"]
      1 2 o e
    by simp
next
  case (Cons y ys)
  then have n: "CHR '']'' \<notin> set ys" by simp
  have "match_at LinkRegex prev (y # ys @ '']()'' @ rest) = None"
    using bracketed_before_empty_target[OF n, of rest]
    by (simp add: match_at.simps)
  from replaceAllStringFunc_no_match[OF this, of "pureRepl linkRepl"]
    Cons.IH[OF n, of "Some y"]
  show ?case by auto
qed

lemma allReadableOS_readFile: "readFile allReadableOS p = Inr ''abc''"
  by (simp add: allReadableOS_def)
lemma allReadableOS_pathJoin: "pathJoin allReadableOS d p = d @ ''/'' @ p"
  by (simp add: allReadableOS_def exampleOS_def)

section \<open>What the scan does at a state\<close>

lemma unreadable_image_at_state:
  assumes "CHR '']'' \<notin> set t" and "CHR '')'' \<notin> set u" and "u \<noteq> []"
    and "\<not> imageTargetKept u"
    and "readFile sys (pathJoin sys baseDir u) = Inl err"
  shows
    "replaceAllStringFunc ImgRegex (imgRepl sys baseDir) prev
        (''!['' @ t @ '']('' @ u @ '')'' @ rest)
       = (''!['' @ t @ '']('' @ u @ '')''
            @ fst (replaceAllStringFunc ImgRegex (imgRepl sys baseDir) (Some (CHR '')'')) rest),
          ReadFile (pathJoin sys baseDir u)
            # Print (''Warning: Could not read image '' @ u @ '': '' @ errorString err
                     @ [CHR 0x0A])
            # snd (replaceAllStringFunc ImgRegex (imgRepl sys baseDir) (Some (CHR '')'')) rest))
     \<and> (hasSuffix inputFile ''.md'' \<and> readFile sys inputFile = Inr mdContent
          \<and> (\<forall>c. writeFile sys (trimSuffix inputFile ''.md'' @ ''.html'') c = None)
        \<longrightarrow> fst (main sys fontFamily title (inputFile # others)) = 0
            \<and> WriteFile (trimSuffix inputFile ''.md'' @ ''.html'')
                 (createHTMLDocument
                    (render sys (fst (fst (embedImages sys (rewriteMarkdownLinks mdContent)
                                             (pathDir sys inputFile)))))
                    fontFamily title)
                \<in> set (snd (main sys fontFamily title (inputFile # others))))"
proof (intro conjI impI)
  have r: "imgRepl sys baseDir (''!['' @ t @ '']('' @ u @ '')'')
             = (''!['' @ t @ '']('' @ u @ '')'',
                [ReadFile (pathJoin sys baseDir u),
                 Print (''Warning: Could not read image '' @ u @ '': '' @ errorString err
                        @ [CHR 0x0A])])"
    using imgRepl_match[OF assms(1-3), of sys baseDir] assms(4,5)
    by (simp add: wholeLink_def)
  show "replaceAllStringFunc ImgRegex (imgRepl sys baseDir) prev
        (''!['' @ t @ '']('' @ u @ '')'' @ rest)
       = (''!['' @ t @ '']('' @ u @ '')''
            @ fst (replaceAllStringFunc ImgRegex (imgRepl sys baseDir) (Some (CHR '')'')) rest),
          ReadFile (pathJoin sys baseDir u)
            # Print (''Warning: Could not read image '' @ u @ '': '' @ errorString err
                     @ [CHR 0x0A])
            # snd (replaceAllStringFunc ImgRegex (imgRepl sys baseDir) (Some (CHR '')'')) rest))"
    unfolding img_scan_step[OF assms(1-3)] r by simp
next
  assume a: "hasSuffix inputFile ''.md'' \<and> readFile sys inputFile = Inr mdContent
          \<and> (\<forall>c. writeFile sys (trimSuffix inputFile ''.md'' @ ''.html'') c = None)"
  then have md: "hasSuffix inputFile ''.md''" and rd: "readFile sys inputFile = Inr mdContent"
    and wr: "\<And>c. writeFile sys (trimSuffix inputFile ''.md'' @ ''.html'') c = None"
    by auto
  show "fst (main sys fontFamily title (inputFile # others)) = 0"
    unfolding main_md[OF md] convertMarkdownToHTML_read_ok[OF rd]
    by (simp add: Let_def wr)
  show "WriteFile (trimSuffix inputFile ''.md'' @ ''.html'')
                 (createHTMLDocument
                    (render sys (fst (fst (embedImages sys (rewriteMarkdownLinks mdContent)
                                             (pathDir sys inputFile)))))
                    fontFamily title)
                \<in> set (snd (main sys fontFamily title (inputFile # others)))"
    unfolding main_md[OF md] convertMarkdownToHTML_read_ok[OF rd]
    by (simp add: Let_def wr)
qed

lemma readable_image_at_state:
  assumes "CHR '']'' \<notin> set t" and "CHR '')'' \<notin> set u" and "u \<noteq> []"
    and "\<not> imageTargetKept u"
    and "readFile sys (pathJoin sys baseDir u) = Inr imgData"
  shows
    "replaceAllStringFunc ImgRegex (imgRepl sys baseDir) prev
        (''!['' @ t @ '']('' @ u @ '')'' @ rest)
       = (''!['' @ t @ ''](''
            @ ''data:'' @ getMimeType sys u @ '';base64,'' @ encodeToString imgData
            @ '')''
            @ fst (replaceAllStringFunc ImgRegex (imgRepl sys baseDir) (Some (CHR '')'')) rest),
          ReadFile (pathJoin sys baseDir u)
            # snd (replaceAllStringFunc ImgRegex (imgRepl sys baseDir) (Some (CHR '')'')) rest))
     \<and> decodeString (encodeToString imgData) = Some imgData
     \<and> getMimeType sys u =
         (let e = toLower sys (ext u)
          in if e = ''.jpg'' \<or> e = ''.jpeg'' then ''image/jpeg''
             else if e = ''.png'' then ''image/png''
             else if e = ''.gif'' then ''image/gif''
             else if e = ''.bmp'' then ''image/bmp''
             else if e = ''.webp'' then ''image/webp''
             else if e = ''.svg'' then ''image/svg+xml''
             else if e = ''.ico'' then ''image/x-icon''
             else ''image/png'')
     \<and> (list_all (\<lambda>c. of_char c < (128::nat)) (ext u)
            \<longrightarrow> toLower sys (ext u) = map lowerByte (ext u))"
proof (intro conjI)
  have r: "imgRepl sys baseDir (''!['' @ t @ '']('' @ u @ '')'')
             = (''!['' @ t @ '']('' @ ''data:'' @ getMimeType sys u @ '';base64,''
                  @ encodeToString imgData @ '')'',
                [ReadFile (pathJoin sys baseDir u)])"
    using imgRepl_match[OF assms(1-3), of sys baseDir] assms(4,5)
    by (simp add: wholeLink_def)
  show "replaceAllStringFunc ImgRegex (imgRepl sys baseDir) prev
        (''!['' @ t @ '']('' @ u @ '')'' @ rest)
       = (''!['' @ t @ ''](''
            @ ''data:'' @ getMimeType sys u @ '';base64,'' @ encodeToString imgData
            @ '')''
            @ fst (replaceAllStringFunc ImgRegex (imgRepl sys baseDir) (Some (CHR '')'')) rest),
          ReadFile (pathJoin sys baseDir u)
            # snd (replaceAllStringFunc ImgRegex (imgRepl sys baseDir) (Some (CHR '')'')) rest))"
    unfolding img_scan_step[OF assms(1-3)] r by simp
  show "decodeString (encodeToString imgData) = Some imgData"
    by (rule decodeString_encodeToString)
  show "getMimeType sys u =
         (let e = toLower sys (ext u)
          in if e = ''.jpg'' \<or> e = ''.jpeg'' then ''image/jpeg''
             else if e = ''.png'' then ''image/png''
             else if e = ''.gif'' then ''image/gif''
             else if e = ''.bmp'' then ''image/bmp''
             else if e = ''.webp'' then ''image/webp''
             else if e = ''.svg'' then ''image/svg+xml''
             else if e = ''.ico'' then ''image/x-icon''
             else ''image/png'')"
    by (rule getMimeType_table)
  show "list_all (\<lambda>c. of_char c < (128::nat)) (ext u)
            \<longrightarrow> toLower sys (ext u) = map lowerByte (ext u)"
    by (simp add: toLower_def)
qed

lemma empty_target_at_state:
  assumes "CHR '']'' \<notin> set t"
  shows
    "match_at LinkRegex prev (c # ''['' @ t @ '']()'' @ rest) = None
     \<and> match_at StartLinkRegex prev (''['' @ t @ '']()'' @ rest) = None
     \<and> match_at ImgRegex prev (''!['' @ t @ '']()'' @ rest) = None
     \<and> (\<exists>out. fst (replaceAllStringFunc LinkRegex (pureRepl linkRepl) prev
                     (''['' @ t @ '']()'' @ rest)) = ''['' @ t @ '']()'' @ out)
     \<and> (\<exists>out. fst (replaceAllStringFunc LinkRegex (pureRepl linkRepl) prev
                     (''!['' @ t @ '']()'' @ rest)) = ''!['' @ t @ '']()'' @ out)
     \<and> fst (replaceAllStringFunc StartLinkRegex (pureRepl startLinkRepl) prev
              (''['' @ t @ '']()'' @ rest))
         = ''['' @ t @ '']()''
           @ fst (replaceAllStringFunc StartLinkRegex (pureRepl startLinkRepl)
                    (Some (CHR '')'')) rest)
     \<and> fst (replaceAllStringFunc StartLinkRegex (pureRepl startLinkRepl) prev
              (''!['' @ t @ '']()'' @ rest))
         = ''!['' @ t @ '']()''
           @ fst (replaceAllStringFunc StartLinkRegex (pureRepl startLinkRepl)
                    (Some (CHR '')'')) rest)
     \<and> replaceAllStringFunc ImgRegex (imgRepl sys baseDir) prev (''['' @ t @ '']()'' @ rest)
         = (''['' @ t @ '']()''
              @ fst (replaceAllStringFunc ImgRegex (imgRepl sys baseDir) (Some (CHR '')'')) rest),
            snd (replaceAllStringFunc ImgRegex (imgRepl sys baseDir) (Some (CHR '')'')) rest))
     \<and> replaceAllStringFunc ImgRegex (imgRepl sys baseDir) prev (''!['' @ t @ '']()'' @ rest)
         = (''!['' @ t @ '']()''
              @ fst (replaceAllStringFunc ImgRegex (imgRepl sys baseDir) (Some (CHR '')'')) rest),
            snd (replaceAllStringFunc ImgRegex (imgRepl sys baseDir) (Some (CHR '')'')) rest))
     \<and> rewriteMarkdownLinks (''['' @ t @ '']()'') = ''['' @ t @ '']()''
     \<and> rewriteMarkdownLinks (''!['' @ t @ '']()'') = ''!['' @ t @ '']()''
     \<and> embedImages sys (''['' @ t @ '']()'') baseDir = ((''['' @ t @ '']()'', None), [])
     \<and> embedImages sys (''!['' @ t @ '']()'') baseDir = ((''!['' @ t @ '']()'', None), [])"
proof -
  have l: "CHR '']'' \<notin> set (''['' @ t)" and i: "CHR '']'' \<notin> set (''!['' @ t)"
    using assms by simp_all
  have e: "bracketed (''['' @ t @ '']()'' @ rest) = None"
    using bracketed_empty_target[OF assms] by simp
  have m1: "match_at LinkRegex prev (c # ''['' @ t @ '']()'' @ rest) = None"
    using e by (simp add: match_at.simps)
  have m2: "match_at StartLinkRegex prev (''['' @ t @ '']()'' @ rest) = None"
    using e by (simp add: match_at.simps)
  have m3: "match_at ImgRegex prev (''!['' @ t @ '']()'' @ rest) = None"
    using e by (simp add: match_at.simps)
  have p1: "\<exists>out. fst (replaceAllStringFunc LinkRegex (pureRepl linkRepl) prev
                     (''['' @ t @ '']()'' @ r)) = ''['' @ t @ '']()'' @ out
                  \<and> (r = [] \<longrightarrow> out = [])" for r prev
    using link_scan_over_empty_target[OF l, of prev r] by simp
  have p2: "\<exists>out. fst (replaceAllStringFunc LinkRegex (pureRepl linkRepl) prev
                     (''!['' @ t @ '']()'' @ r)) = ''!['' @ t @ '']()'' @ out
                  \<and> (r = [] \<longrightarrow> out = [])" for r prev
    using link_scan_over_empty_target[OF i, of prev r] by simp
  have s1: "replaceAllStringFunc re repl prev (''['' @ t @ '']()'' @ r)
         = (''['' @ t @ '']()''
              @ fst (replaceAllStringFunc re repl (Some (CHR '')'')) r),
            snd (replaceAllStringFunc re repl (Some (CHR '')'')) r))"
    if "re \<noteq> LinkRegex" for re r prev and repl :: "string \<Rightarrow> string \<times> 'x list"
    using scan_over_empty_target[OF l that, of repl prev r] by simp
  have s2: "replaceAllStringFunc re repl prev (''!['' @ t @ '']()'' @ r)
         = (''!['' @ t @ '']()''
              @ fst (replaceAllStringFunc re repl (Some (CHR '')'')) r),
            snd (replaceAllStringFunc re repl (Some (CHR '')'')) r))"
    if "re \<noteq> LinkRegex" for re r prev and repl :: "string \<Rightarrow> string \<times> 'x list"
    using scan_over_empty_target[OF i that, of repl prev r] by simp
  have r1: "rewriteMarkdownLinks (''['' @ t @ '']()'') = ''['' @ t @ '']()''"
    using p1[of None "[]"] s1[of StartLinkRegex "pureRepl startLinkRepl" None "[]"]
    by (auto simp: rewriteMarkdownLinks_def)
  have r2: "rewriteMarkdownLinks (''!['' @ t @ '']()'') = ''!['' @ t @ '']()''"
    using p2[of None "[]"] s2[of StartLinkRegex "pureRepl startLinkRepl" None "[]"]
    by (auto simp: rewriteMarkdownLinks_def)
  have e1: "embedImages sys (''['' @ t @ '']()'') baseDir = ((''['' @ t @ '']()'', None), [])"
    using s1[of ImgRegex "imgRepl sys baseDir" None "[]"] by (simp add: embedImages_result)
  have e2: "embedImages sys (''!['' @ t @ '']()'') baseDir = ((''!['' @ t @ '']()'', None), [])"
    using s2[of ImgRegex "imgRepl sys baseDir" None "[]"] by (simp add: embedImages_result)
  from p1[of prev rest] have q1: "\<exists>out. fst (replaceAllStringFunc LinkRegex (pureRepl linkRepl) prev
                     (''['' @ t @ '']()'' @ rest)) = ''['' @ t @ '']()'' @ out" by blast
  from p2[of prev rest] have q2: "\<exists>out. fst (replaceAllStringFunc LinkRegex (pureRepl linkRepl) prev
                     (''!['' @ t @ '']()'' @ rest)) = ''!['' @ t @ '']()'' @ out" by blast
  show ?thesis
    using m1 m2 m3 q1 q2 s1[of StartLinkRegex "pureRepl startLinkRepl" prev rest]
      s2[of StartLinkRegex "pureRepl startLinkRepl" prev rest]
      s1[of ImgRegex "imgRepl sys baseDir" prev rest]
      s2[of ImgRegex "imgRepl sys baseDir" prev rest] r1 r2 e1 e2
    by simp
qed

section \<open>The scan up to a state\<close>

text \<open>
  A match is found from the text at the search position alone, and it does not change
  when text is added or taken away behind its end. So when the scan of \<open>pre @ s\<close>
  has a state at \<open>s\<close>, it has run over \<open>pre\<close> as it runs over the text \<open>pre\<close>
  alone: output and events are those for \<open>pre\<close>, followed by those from the state on.
\<close>

lemma bracketed_append:
  "bracketed s = Some (t, u, r) \<Longrightarrow> bracketed (s @ y) = Some (t, u, r @ y)"
  using bracketed_SomeD[of s t u r] bracketed_wholeLink[of t u "r @ y"] by simp

lemma bracketed_truncate:
  assumes "bracketed (x @ y) = Some (t, u, r @ y)"
  shows "bracketed x = Some (t, u, r)"
proof -
  from bracketed_SomeD[OF assms] have e: "x @ y = wholeLink t u @ r @ y"
    and c: "CHR '']'' \<notin> set t" "CHR '')'' \<notin> set u" "u \<noteq> []"
    by simp_all
  from e have "x = wholeLink t u @ r" by simp
  with bracketed_wholeLink[OF c, of r] show ?thesis by simp
qed

lemma match_at_append:
  assumes "match_at re prev x = Some (m, g, r)"
  shows "match_at re prev (x @ y) = Some (m, g, r @ y)"
proof (cases re)
  case LinkRegex
  with assms obtain c x' where x: "x = c # x'"
    by (cases x) (auto simp: match_at.simps)
  with assms LinkRegex obtain t u where c: "c \<noteq> CHR ''!''"
    and b: "bracketed x' = Some (t, u, r)"
    and m: "m = c # wholeLink t u" "g = [[c], t, u]"
    by (auto simp: match_at.simps split: if_splits option.splits)
  from bracketed_append[OF b, of y] c m LinkRegex x show ?thesis
    by (simp add: match_at.simps)
next
  case StartLinkRegex
  with assms obtain t u where p: "prev = None \<or> prev = Some (CHR 0x0A)"
    and b: "bracketed x = Some (t, u, r)"
    and m: "m = wholeLink t u" "g = [t, u]"
    by (auto simp: match_at.simps split: if_splits option.splits)
  from bracketed_append[OF b, of y] p m StartLinkRegex show ?thesis
    by (auto simp add: match_at.simps)
next
  case ImgRegex
  with assms obtain c x' where x: "x = c # x'"
    by (cases x) (auto simp: match_at.simps)
  with assms ImgRegex obtain t u where c: "c = CHR ''!''"
    and b: "bracketed x' = Some (t, u, r)"
    and m: "m = c # wholeLink t u" "g = [t, u]"
    by (auto simp: match_at.simps split: if_splits option.splits)
  from bracketed_append[OF b, of y] c m ImgRegex x show ?thesis
    by (simp add: match_at.simps)
qed

lemma match_at_truncate:
  assumes "match_at re prev (x @ y) = Some (m, g, r @ y)"
  shows "match_at re prev x = Some (m, g, r)"
proof (cases x)
  case Nil
  with assms match_at_shorter[of re prev y m g "r @ y"] show ?thesis by simp
next
  case (Cons c x')
  show ?thesis
  proof (cases re)
    case LinkRegex
    with assms Cons obtain t u where c: "c \<noteq> CHR ''!''"
      and b: "bracketed (x' @ y) = Some (t, u, r @ y)"
      and m: "m = c # wholeLink t u" "g = [[c], t, u]"
      by (auto simp: match_at.simps split: if_splits option.splits)
    from bracketed_truncate[OF b] c m LinkRegex Cons show ?thesis
      by (simp add: match_at.simps)
  next
    case StartLinkRegex
    with assms Cons obtain t u where p: "prev = None \<or> prev = Some (CHR 0x0A)"
      and b: "bracketed (x @ y) = Some (t, u, r @ y)"
      and m: "m = wholeLink t u" "g = [t, u]"
      by (auto simp: match_at.simps split: if_splits option.splits)
    from bracketed_truncate[OF b] p m StartLinkRegex show ?thesis
      by (auto simp add: match_at.simps)
  next
    case ImgRegex
    with assms Cons obtain t u where c: "c = CHR ''!''"
      and b: "bracketed (x' @ y) = Some (t, u, r @ y)"
      and m: "m = c # wholeLink t u" "g = [t, u]"
      by (auto simp: match_at.simps split: if_splits option.splits)
    from bracketed_truncate[OF b] c m ImgRegex Cons show ?thesis
      by (simp add: match_at.simps)
  qed
qed

lemma scanStates_suffix:
  "(p, x) \<in> set (scanStates re prev s) \<Longrightarrow> \<exists>y. s = y @ x"
proof (induction re prev s rule: scanStates.induct)
  case (1 re prev)
  then show ?case by simp
next
  case (2 re prev c s)
  show ?case
  proof (cases "(p, x) = (prev, c # s)")
    case True
    then show ?thesis by simp
  next
    case False
    show ?thesis
    proof (cases "match_at re prev (c # s)")
      case None
      with False "2.prems" have "(p, x) \<in> set (scanStates re (Some c) s)"
        by (auto simp: scanStates.simps(2))
      from "2.IH"(1)[OF None this] obtain y where "s = y @ x" by blast
      then have "c # s = (c # y) @ x" by simp
      then show ?thesis by blast
    next
      case (Some r)
      obtain m groups rest where r: "r = (m, groups, rest)" by (cases r) auto
      with Some have ma: "match_at re prev (c # s) = Some (m, groups, rest)" by simp
      with False "2.prems" have "(p, x) \<in> set (scanStates re (Some (last m)) rest)"
        by (auto simp: scanStates.simps(2))
      from "2.IH"(2)[OF Some r[symmetric] refl this] obtain y where y: "rest = y @ x" by blast
      have "\<exists>z. c # s = z @ rest"
        using ma by (cases re)
          (auto simp: match_at.simps split: if_splits option.splits dest: bracketed_SomeD(1))
      then obtain z where "c # s = z @ rest" by blast
      with y have "c # s = (z @ y) @ x" by simp
      then show ?thesis by blast
    qed
  qed
qed

lemma scanStates_first:
  assumes "(p, s) \<in> set (scanStates re prev s)"
  shows "p = prev"
proof (cases s)
  case Nil
  with assms show ?thesis by simp
next
  case (Cons c s')
  show ?thesis
  proof (rule ccontr)
    assume n: "p \<noteq> prev"
    show False
    proof (cases "match_at re prev (c # s')")
      case None
      with n assms Cons have "(p, c # s') \<in> set (scanStates re (Some c) s')"
        by (auto simp: scanStates.simps(2))
      from scanStates_suffix[OF this] show False by auto
    next
      case (Some r)
      obtain m groups rest where r: "r = (m, groups, rest)" by (cases r) auto
      with Some have ma: "match_at re prev (c # s') = Some (m, groups, rest)" by simp
      with n assms Cons have "(p, c # s') \<in> set (scanStates re (Some (last m)) rest)"
        by (auto simp: scanStates.simps(2))
      from scanStates_suffix[OF this] obtain y where "rest = y @ c # s'" by blast
      with match_at_shorter[OF ma] show False by simp
    qed
  qed
qed

lemma scan_split:
  "(prev', s') \<in> set (scanStates re prev (pre @ s')) \<Longrightarrow>
     replaceAllStringFunc re repl prev (pre @ s')
       = (fst (replaceAllStringFunc re repl prev pre) @ fst (replaceAllStringFunc re repl prev' s'),
          snd (replaceAllStringFunc re repl prev pre) @ snd (replaceAllStringFunc re repl prev' s'))"
proof (induction "length pre" arbitrary: pre prev rule: less_induct)
  case less
  show ?case
  proof (cases pre)
    case Nil
    with less.prems scanStates_first[of prev' s' re prev] show ?thesis by simp
  next
    case (Cons c pre')
    have ne: "(prev', s') \<noteq> (prev, c # pre' @ s')" by auto
    show ?thesis
    proof (cases "match_at re prev (c # pre' @ s')")
      case None
      with ne less.prems Cons have m: "(prev', s') \<in> set (scanStates re (Some c) (pre' @ s'))"
        by (auto simp: scanStates.simps(2))
      have n': "match_at re prev (c # pre') = None"
      proof (cases "match_at re prev (c # pre')")
        case None then show ?thesis .
      next
        case (Some r)
        obtain m g r' where "r = (m, g, r')" by (cases r) auto
        with Some match_at_append[of re prev "c # pre'" m g r' s'] None show ?thesis by simp
      qed
      from less.hyps[of pre' "Some c", OF _ m] Cons
        replaceAllStringFunc_no_match[OF None, of repl]
        replaceAllStringFunc_no_match[OF n', of repl]
      show ?thesis by simp
    next
      case (Some r)
      obtain m groups rest where r: "r = (m, groups, rest)" by (cases r) auto
      with Some have ma: "match_at re prev (c # pre' @ s') = Some (m, groups, rest)" by simp
      with ne less.prems Cons have st: "(prev', s') \<in> set (scanStates re (Some (last m)) rest)"
        by (auto simp: scanStates.simps(2))
      from scanStates_suffix[OF st] obtain y where y: "rest = y @ s'" by blast
      from ma y have "match_at re prev ((c # pre') @ s') = Some (m, groups, y @ s')" by simp
      from match_at_truncate[OF this] have mt: "match_at re prev (c # pre') = Some (m, groups, y)" .
      from match_at_shorter[OF mt] Cons have l: "length y < length pre" by simp
      from st y have st': "(prev', s') \<in> set (scanStates re (Some (last m)) (y @ s'))" by simp
      from less.hyps[OF l st'] y Cons
        replaceAllStringFunc_match[OF ma, of repl]
        replaceAllStringFunc_match[OF mt, of repl]
      show ?thesis by simp
    qed
  qed
qed

lemma img_scan_prev:
  "replaceAllStringFunc ImgRegex repl prev s = replaceAllStringFunc ImgRegex repl prev' s"
  by (cases s) (simp_all add: replaceAllStringFunc.simps(2) match_at.simps)

section \<open>The passes at a link and at an image\<close>

lemma rewriteMarkdownLinks_passes:
  "rewriteMarkdownLinks mdContent = startLinkPass None (linkPass mdContent)"
  by (simp add: rewriteMarkdownLinks_def)

lemma first_pass_at_link:
  assumes "CHR '']'' \<notin> set t" and "CHR '')'' \<notin> set u" and "u \<noteq> []" and "c \<noteq> CHR ''!''"
    and "(prev, c # ''['' @ t @ '']('' @ u @ '')'' @ rest)
           \<in> set (scanStates LinkRegex None (pre @ c # ''['' @ t @ '']('' @ u @ '')'' @ rest))"
  shows "linkPass (pre @ c # ''['' @ t @ '']('' @ u @ '')'' @ rest)
           = linkPass pre @ c # ''['' @ t @ '']('' @ (if linkTargetKept u then u else mdToHtml u)
               @ '')'' @ linkPass rest"
proof -
  have "fst (replaceAllStringFunc LinkRegex (pureRepl linkRepl) prev
               (c # wholeLink t u @ rest))
          = c # wholeLink t (if linkTargetKept u then u else mdToHtml u) @ linkPass rest"
    using replaceAllStringFunc_match[OF match_at_link[OF assms(4) assms(1-3), of prev rest],
            of "pureRepl linkRepl", unfolded last_wholeLink(2)]
      linkRepl_match[OF assms(4) assms(1-3)]
      link_scan_prev[of "pureRepl linkRepl" "Some (CHR '')'')" rest None]
    by (simp add: pureRepl_def)
  with scan_split[OF assms(5), of "pureRepl linkRepl"] show ?thesis
    by (simp add: wholeLink_def)
qed

lemma second_pass_at_link:
  assumes "CHR '']'' \<notin> set t" and "CHR '')'' \<notin> set u" and "u \<noteq> []"
    and "prev = None \<or> prev = Some (CHR 0x0A)"
    and "(prev, ''['' @ t @ '']('' @ u @ '')'' @ rest)
           \<in> set (scanStates StartLinkRegex None (pre @ ''['' @ t @ '']('' @ u @ '')'' @ rest))"
  shows "startLinkPass None (pre @ ''['' @ t @ '']('' @ u @ '')'' @ rest)
           = startLinkPass None pre @ ''['' @ t @ '']('' @ (if linkTargetKept u then u else mdToHtml u)
               @ '')'' @ startLinkPass (Some (CHR '')'')) rest"
proof -
  have "fst (replaceAllStringFunc StartLinkRegex (pureRepl startLinkRepl) prev
               (wholeLink t u @ rest))
          = wholeLink t (if linkTargetKept u then u else mdToHtml u)
            @ startLinkPass (Some (CHR '')'')) rest"
    using replaceAllStringFunc_match[OF match_at_startLink[OF assms(4) assms(1-3), of rest],
            of "pureRepl startLinkRepl", unfolded last_wholeLink(1)]
      startLinkRepl_match[OF assms(1-3)]
    by (simp add: pureRepl_def)
  with scan_split[OF assms(5), of "pureRepl startLinkRepl"] show ?thesis
    by (simp add: wholeLink_def)
qed

lemma embedImages_split:
  assumes "(prev, s) \<in> set (scanStates ImgRegex None (pre @ s))"
  shows "embedImages sys (pre @ s) baseDir
           = ((fst (fst (embedImages sys pre baseDir))
                 @ fst (replaceAllStringFunc ImgRegex (imgRepl sys baseDir) prev s), None),
              snd (embedImages sys pre baseDir)
                @ snd (replaceAllStringFunc ImgRegex (imgRepl sys baseDir) prev s))"
  using scan_split[OF assms, of "imgRepl sys baseDir"]
  by (simp add: embedImages_result)

lemma embed_at_image:
  assumes "CHR '']'' \<notin> set t" and "CHR '')'' \<notin> set u" and "u \<noteq> []"
    and "(prev, ''!['' @ t @ '']('' @ u @ '')'' @ rest)
           \<in> set (scanStates ImgRegex None (pre @ ''!['' @ t @ '']('' @ u @ '')'' @ rest))"
  shows "embedImages sys (pre @ ''!['' @ t @ '']('' @ u @ '')'' @ rest) baseDir
           = ((fst (fst (embedImages sys pre baseDir))
                 @ fst (imgRepl sys baseDir (''!['' @ t @ '']('' @ u @ '')''))
                 @ fst (fst (embedImages sys rest baseDir)), None),
              snd (embedImages sys pre baseDir)
                @ snd (imgRepl sys baseDir (''!['' @ t @ '']('' @ u @ '')''))
                @ snd (embedImages sys rest baseDir))"
  unfolding embedImages_split[OF assms(4)] img_scan_step[OF assms(1-3)]
  using img_scan_prev[of "imgRepl sys baseDir" "Some (CHR '')'')" rest None]
  by (simp add: embedImages_result)

lemma start_scan_no_open:
  "CHR ''['' \<notin> set ys \<Longrightarrow>
     replaceAllStringFunc StartLinkRegex repl prev (ys @ s)
       = (ys @ fst (replaceAllStringFunc StartLinkRegex repl
                      (if ys = [] then prev else Some (last ys)) s),
          snd (replaceAllStringFunc StartLinkRegex repl
                 (if ys = [] then prev else Some (last ys)) s))"
proof (induction ys arbitrary: prev)
  case Nil
  show ?case by simp
next
  case (Cons y ys)
  have "bracketed (y # ys @ s) = None"
    using Cons.prems bracketed_not_open[of "y # ys @ s"] by auto
  then have "match_at StartLinkRegex prev (y # ys @ s) = None" by (simp add: match_at.simps)
  from replaceAllStringFunc_no_match[OF this, of repl] Cons.IH[of "Some y"] Cons.prems
  show ?case by simp
qed

lemma scanStates_head: "(prev, s) \<in> set (scanStates re prev s)"
  by (cases s) (simp_all add: scanStates.simps(2))

lemma start_states_no_open:
  "CHR ''['' \<notin> set ys \<Longrightarrow>
     (if ys = [] then prev else Some (last ys), s)
       \<in> set (scanStates StartLinkRegex prev (ys @ s))"
proof (induction ys arbitrary: prev)
  case Nil
  show ?case by (simp add: scanStates_head)
next
  case (Cons y ys)
  have "bracketed (y # ys @ s) = None"
    using Cons.prems bracketed_not_open[of "y # ys @ s"] by auto
  then have "match_at StartLinkRegex prev (y # ys @ s) = None" by (simp add: match_at.simps)
  with Cons.IH[of "Some y"] Cons.prems show ?case
    by (auto simp: scanStates.simps(2) scanStates_head split: if_splits)
qed

lemma linkPass_no_open: "CHR ''['' \<notin> set ys \<Longrightarrow> linkPass ys = ys"
proof (cases ys)
  case Nil
  then show ?thesis by simp
next
  case (Cons y ys')
  assume "CHR ''['' \<notin> set ys"
  with Cons have "CHR ''['' \<notin> set ys'" by simp
  from link_scan_no_open[OF this, of "pureRepl linkRepl" None y "[]" None] Cons
  show ?thesis by (simp add: link_scan_single)
qed

lemma newTarget_shape:
  assumes "CHR '')'' \<notin> set u" and "u \<noteq> []"
  shows "CHR '')'' \<notin> set (if linkTargetKept u then u else mdToHtml u)"
    and "(if linkTargetKept u then u else mdToHtml u) \<noteq> []"
    and "CHR ''['' \<notin> set u \<Longrightarrow> CHR ''['' \<notin> set (if linkTargetKept u then u else mdToHtml u)"
  using assms
  by (auto simp: mdToHtml_def trimSuffix_def dest: in_set_takeD)

lemma newTarget_idem:
  "(if linkTargetKept (if linkTargetKept u then u else mdToHtml u)
    then (if linkTargetKept u then u else mdToHtml u)
    else mdToHtml (if linkTargetKept u then u else mdToHtml u))
   = (if linkTargetKept u then u else mdToHtml u)"
proof -
  have "\<not> hasSuffix (x @ ''.html'') ''.md''" for x
    by (simp add: hasSuffix_def)
  then have "mdToHtml (mdToHtml u) = mdToHtml u"
    by (simp add: mdToHtml_def)
  then show ?thesis by simp
qed

lemma second_pass_over_link:
  assumes "CHR '']'' \<notin> set t" and "CHR '')'' \<notin> set v" and "v \<noteq> []"
    and "CHR ''['' \<notin> set t" and "CHR ''['' \<notin> set v"
    and "(if linkTargetKept v then v else mdToHtml v) = v"
  shows "startLinkPass p (''['' @ t @ '']('' @ v @ '')'' @ s)
           = ''['' @ t @ '']('' @ v @ '')'' @ startLinkPass (Some (CHR '')'')) s"
proof (cases "p = None \<or> p = Some (CHR 0x0A)")
  case True
  from replaceAllStringFunc_match[OF match_at_startLink[OF True assms(1-3), of s],
          of "pureRepl startLinkRepl", unfolded last_wholeLink(1)]
    startLinkRepl_match[OF assms(1-3)] assms(6)
  show ?thesis
    by (simp add: pureRepl_def wholeLink_def)
next
  case False
  then have "match_at StartLinkRegex p (CHR ''['' # t @ '']('' @ v @ '')'' @ s) = None"
    by (auto simp: match_at.simps)
  moreover have "CHR ''['' \<notin> set (t @ '']('' @ v @ '')'')" using assms(4,5) by simp
  from start_scan_no_open[OF this, of "pureRepl startLinkRepl" "Some (CHR ''['')" s]
  have "startLinkPass (Some (CHR ''['')) (t @ '']('' @ v @ '')'' @ s)
          = t @ '']('' @ v @ '')'' @ startLinkPass (Some (CHR '')'')) s"
    by simp
  ultimately show ?thesis
    using replaceAllStringFunc_no_match[of StartLinkRegex p "CHR ''[''"
            "t @ '']('' @ v @ '')'' @ s" "pureRepl startLinkRepl"]
    by simp
qed

lemma rewriter_at_link:
  assumes "CHR '']'' \<notin> set t" and "CHR '')'' \<notin> set u" and "u \<noteq> []" and "c \<noteq> CHR ''!''"
    and "CHR ''['' \<notin> set t" and "CHR ''['' \<notin> set u"
    and "(prev, c # ''['' @ t @ '']('' @ u @ '')'' @ rest)
           \<in> set (scanStates LinkRegex None (pre @ c # ''['' @ t @ '']('' @ u @ '')'' @ rest))"
    and "(Some c, ''['' @ t @ '']('' @ (if linkTargetKept u then u else mdToHtml u) @ '')''
                    @ linkPass rest)
           \<in> set (scanStates StartLinkRegex None
                    ((linkPass pre @ [c]) @ ''['' @ t @ ''](''
                       @ (if linkTargetKept u then u else mdToHtml u) @ '')'' @ linkPass rest))"
  shows "rewriteMarkdownLinks (pre @ c # ''['' @ t @ '']('' @ u @ '')'' @ rest)
           = startLinkPass None (linkPass pre @ [c])
             @ ''['' @ t @ '']('' @ (if linkTargetKept u then u else mdToHtml u) @ '')''
             @ startLinkPass (Some (CHR '')'')) (linkPass rest)"
proof -
  let ?v = "if linkTargetKept u then u else mdToHtml u"
  have p1: "linkPass (pre @ c # ''['' @ t @ '']('' @ u @ '')'' @ rest)
              = (linkPass pre @ [c]) @ ''['' @ t @ '']('' @ ?v @ '')'' @ linkPass rest"
    using first_pass_at_link[OF assms(1-4) assms(7)] by simp
  have p2: "startLinkPass None ((linkPass pre @ [c]) @ ''['' @ t @ '']('' @ ?v @ '')'' @ linkPass rest)
              = startLinkPass None (linkPass pre @ [c])
                @ startLinkPass (Some c) (''['' @ t @ '']('' @ ?v @ '')'' @ linkPass rest)"
    using scan_split[OF assms(8), of "pureRepl startLinkRepl"] by simp
  have p3: "startLinkPass (Some c) (''['' @ t @ '']('' @ ?v @ '')'' @ linkPass rest)
              = ''['' @ t @ '']('' @ ?v @ '')'' @ startLinkPass (Some (CHR '')'')) (linkPass rest)"
    by (rule second_pass_over_link[OF assms(1) newTarget_shape(1,2)[OF assms(2,3)] assms(5)
               newTarget_shape(3)[OF assms(2,3) assms(6)] newTarget_idem])
  show ?thesis
    unfolding rewriteMarkdownLinks_passes p1 p2 p3 by simp
qed

lemma link_states_before:
  "CHR ''['' \<notin> set ys \<Longrightarrow> bracketed s = None \<Longrightarrow>
     (if ys = [] then prev else Some (last ys), s)
       \<in> set (scanStates LinkRegex prev (ys @ s))"
proof (induction ys arbitrary: prev)
  case Nil
  show ?case by (simp add: scanStates_head)
next
  case (Cons y ys)
  have "bracketed (ys @ s) = None"
    using Cons.prems bracketed_not_open[of "ys @ s"] by (cases ys) auto
  then have "match_at LinkRegex prev (y # ys @ s) = None" by (simp add: match_at.simps)
  with Cons.IH[of "Some y"] Cons.prems show ?case
    by (auto simp: scanStates.simps(2) scanStates_head split: if_splits)
qed

lemma startLinkPass_no_open: "CHR ''['' \<notin> set ys \<Longrightarrow> startLinkPass prev ys = ys"
  using start_scan_no_open[of ys "pureRepl startLinkRepl" prev "[]"] by simp

lemma rewriter_first_link:
  assumes "CHR '']'' \<notin> set t" and "CHR '')'' \<notin> set u" and "u \<noteq> []" and "c \<noteq> CHR ''!''"
    and "CHR ''['' \<notin> set t" and "CHR ''['' \<notin> set u"
    and "CHR ''['' \<notin> set pre" and "c \<noteq> CHR ''[''"
  shows "rewriteMarkdownLinks (pre @ c # ''['' @ t @ '']('' @ u @ '')'' @ rest)
           = pre @ c # ''['' @ t @ '']('' @ (if linkTargetKept u then u else mdToHtml u) @ '')''
             @ startLinkPass (Some (CHR '')'')) (linkPass rest)"
proof -
  let ?v = "if linkTargetKept u then u else mdToHtml u"
  have b: "bracketed (c # ''['' @ t @ '']('' @ u @ '')'' @ rest) = None"
    using assms(8) bracketed_not_open[of "c # ''['' @ t @ '']('' @ u @ '')'' @ rest"] by simp
  have s1: "(if pre = [] then None else Some (last pre), c # ''['' @ t @ '']('' @ u @ '')'' @ rest)
           \<in> set (scanStates LinkRegex None (pre @ c # ''['' @ t @ '']('' @ u @ '')'' @ rest))"
    by (rule link_states_before[OF assms(7) b])
  have n: "CHR ''['' \<notin> set (pre @ [c])" using assms(7,8) by simp
  have lp: "linkPass pre = pre" by (rule linkPass_no_open[OF assms(7)])
  have s2: "(Some c, ''['' @ t @ '']('' @ ?v @ '')'' @ linkPass rest)
           \<in> set (scanStates StartLinkRegex None
                    ((linkPass pre @ [c]) @ ''['' @ t @ '']('' @ ?v @ '')'' @ linkPass rest))"
    using start_states_no_open[OF n, of None "''['' @ t @ '']('' @ ?v @ '')'' @ linkPass rest"]
    unfolding lp by simp
  from rewriter_at_link[OF assms(1-6) s1 s2] startLinkPass_no_open[OF n, of None] lp
  show ?thesis by simp
qed

lemma linkPass_first: "linkPass (c # s) = c # tl (linkPass (c # s))"
  using link_scan_keeps_first[of None c s] by auto

lemma rewriter_at_start:
  assumes "CHR '']'' \<notin> set t" and "CHR '')'' \<notin> set u" and "u \<noteq> []"
    and "CHR ''['' \<notin> set t" and "CHR ''['' \<notin> set u"
  shows "rewriteMarkdownLinks (''['' @ t @ '']('' @ u @ '')'' @ rest)
           = ''['' @ t @ '']('' @ (if linkTargetKept u then u else mdToHtml u) @ '')''
             @ startLinkPass (Some (CHR '')'')) (tl (linkPass ('')'' @ rest)))"
proof -
  let ?v = "if linkTargetKept u then u else mdToHtml u"
  have no: "CHR ''['' \<notin> set (t @ '']('' @ u @ '')'')" using assms by simp
  from link_scan_no_open[OF this, of "pureRepl linkRepl" None "CHR ''[''" rest None]
  have "linkPass (wholeLink t u @ rest) = (''['' @ t @ '']('' @ u) @ linkPass (CHR '')'' # rest)"
    by (simp add: wholeLink_def butlast_append)
  with linkPass_first[of "CHR '')''" rest]
  have p1: "linkPass (wholeLink t u @ rest) = wholeLink t u @ tl (linkPass (CHR '')'' # rest))"
    by (simp add: wholeLink_def)
  have p2: "startLinkPass None (wholeLink t u @ x)
              = wholeLink t ?v @ startLinkPass (Some (CHR '')'')) x" for x
    using replaceAllStringFunc_match[OF match_at_startLink[OF _ assms(1-3), of None x],
            of "pureRepl startLinkRepl", unfolded last_wholeLink(1)]
      startLinkRepl_match[OF assms(1-3)]
    by (simp add: pureRepl_def)
  have "rewriteMarkdownLinks (wholeLink t u @ rest)
          = wholeLink t ?v @ startLinkPass (Some (CHR '')'')) (tl (linkPass (CHR '')'' # rest)))"
    unfolding rewriteMarkdownLinks_passes p1 p2 ..
  then show ?thesis by (simp add: wholeLink_def)
qed


section \<open>The passes at a span with an empty target\<close>

lemma link_scan_over_empty_exact:
  assumes "CHR '']'' \<notin> set ys"
  shows "fst (replaceAllStringFunc LinkRegex repl prev (ys @ '']()'' @ rest))
           = ys @ '']('' @ fst (replaceAllStringFunc LinkRegex repl prev' ('')'' @ rest))"
  using assms
proof (induction ys arbitrary: prev)
  case Nil
  have 1: "match_at LinkRegex prev ('']()'' @ rest) = None"
    by (simp add: match_at.simps bracketed_def)
  have 2: "match_at LinkRegex (Some (CHR '']'')) (''()'' @ rest) = None"
    by (simp add: match_at.simps bracketed_def)
  show ?case
    using replaceAllStringFunc_no_match[of LinkRegex prev "CHR '']''" "''()'' @ rest" repl]
      replaceAllStringFunc_no_match[of LinkRegex "Some (CHR '']'')" "CHR ''(''" "'')'' @ rest" repl]
      1 2 link_scan_prev[of repl "Some (CHR ''('')" "'')'' @ rest" prev']
    by simp
next
  case (Cons y ys)
  then have n: "CHR '']'' \<notin> set ys" by simp
  have "match_at LinkRegex prev (y # ys @ '']()'' @ rest) = None"
    using bracketed_before_empty_target[OF n, of rest]
    by (simp add: match_at.simps)
  from replaceAllStringFunc_no_match[OF this, of repl] Cons.IH[OF n, of "Some y"]
  show ?case by simp
qed

lemma first_pass_at_empty:
  assumes "CHR '']'' \<notin> set ys"
    and "(prev, ys @ '']()'' @ rest) \<in> set (scanStates LinkRegex None (pre @ ys @ '']()'' @ rest))"
  shows "linkPass (pre @ ys @ '']()'' @ rest)
           = linkPass pre @ ys @ '']()'' @ tl (linkPass ('')'' @ rest))"
proof -
  have "fst (replaceAllStringFunc LinkRegex (pureRepl linkRepl) prev (ys @ '']()'' @ rest))
          = ys @ '']('' @ linkPass ('')'' @ rest)"
    by (rule link_scan_over_empty_exact[OF assms(1)])
  with linkPass_first[of "CHR '')''" rest]
  have "fst (replaceAllStringFunc LinkRegex (pureRepl linkRepl) prev (ys @ '']()'' @ rest))
          = ys @ '']()'' @ tl (linkPass ('')'' @ rest))"
    by simp
  with scan_split[OF assms(2), of "pureRepl linkRepl"] show ?thesis by simp
qed

lemma second_pass_at_empty:
  assumes "CHR '']'' \<notin> set ys"
    and "(prev, ys @ '']()'' @ rest)
           \<in> set (scanStates StartLinkRegex None (pre @ ys @ '']()'' @ rest))"
  shows "startLinkPass None (pre @ ys @ '']()'' @ rest)
           = startLinkPass None pre @ ys @ '']()'' @ startLinkPass (Some (CHR '')'')) rest"
  using scan_split[OF assms(2), of "pureRepl startLinkRepl"]
    scan_over_empty_target[OF assms(1), of StartLinkRegex "pureRepl startLinkRepl" prev rest]
  by simp

lemma embed_at_empty:
  assumes "CHR '']'' \<notin> set ys"
    and "(prev, ys @ '']()'' @ rest) \<in> set (scanStates ImgRegex None (pre @ ys @ '']()'' @ rest))"
  shows "embedImages sys (pre @ ys @ '']()'' @ rest) baseDir
           = ((fst (fst (embedImages sys pre baseDir)) @ ys @ '']()''
                 @ fst (fst (embedImages sys rest baseDir)), None),
              snd (embedImages sys pre baseDir) @ snd (embedImages sys rest baseDir))"
  unfolding embedImages_split[OF assms(2)]
  using scan_over_empty_target[OF assms(1), of ImgRegex "imgRepl sys baseDir" prev rest]
    img_scan_prev[of "imgRepl sys baseDir" "Some (CHR '')'')" rest None]
  by (simp add: embedImages_result)

lemma rewriter_at_empty:
  assumes "CHR '']'' \<notin> set ys"
    and "(prev, ys @ '']()'' @ rest) \<in> set (scanStates LinkRegex None (pre @ ys @ '']()'' @ rest))"
    and "(prev', ys @ '']()'' @ tl (linkPass ('')'' @ rest)))
           \<in> set (scanStates StartLinkRegex None
                    (linkPass pre @ ys @ '']()'' @ tl (linkPass ('')'' @ rest))))"
  shows "rewriteMarkdownLinks (pre @ ys @ '']()'' @ rest)
           = startLinkPass None (linkPass pre) @ ys @ '']()''
             @ startLinkPass (Some (CHR '')'')) (tl (linkPass ('')'' @ rest)))"
  unfolding rewriteMarkdownLinks_passes first_pass_at_empty[OF assms(1,2)]
  by (rule second_pass_at_empty[OF assms(1,3)])

lemma rewriter_first_empty:
  assumes "CHR '']'' \<notin> set ys" and "CHR ''['' \<notin> set pre"
  shows "rewriteMarkdownLinks (pre @ ys @ '']()'' @ rest)
           = pre @ ys @ '']()'' @ startLinkPass (Some (CHR '')'')) (tl (linkPass ('')'' @ rest)))"
proof -
  have s1: "(if pre = [] then None else Some (last pre), ys @ '']()'' @ rest)
              \<in> set (scanStates LinkRegex None (pre @ ys @ '']()'' @ rest))"
    by (rule link_states_before[OF assms(2) bracketed_before_empty_target[OF assms(1)]])
  have lp: "linkPass pre = pre" by (rule linkPass_no_open[OF assms(2)])
  have s2: "(if pre = [] then None else Some (last pre),
             ys @ '']()'' @ tl (linkPass ('')'' @ rest)))
              \<in> set (scanStates StartLinkRegex None
                       (linkPass pre @ ys @ '']()'' @ tl (linkPass ('')'' @ rest))))"
    unfolding lp by (rule start_states_no_open[OF assms(2)])
  from rewriter_at_empty[OF assms(1) s1 s2] lp startLinkPass_no_open[OF assms(2), of None]
  show ?thesis by simp
qed

section \<open>Extensions\<close>

lemma extLoop_skip:
  "CHR ''.'' \<notin> set xs \<Longrightarrow> CHR ''/'' \<notin> set xs \<Longrightarrow>
     extLoop (xs @ ys) passed = extLoop ys (rev xs @ passed)"
  by (induction xs arbitrary: passed) auto

lemma ext_dot:
  assumes "CHR ''.'' \<notin> set e" and "CHR ''/'' \<notin> set e"
  shows "ext (stem @ ''.'' @ e) = ''.'' @ e"
  using extLoop_skip[of "rev e" "CHR ''.'' # rev stem" "[]"] assms
  by (simp add: ext_def)

lemma ext_none:
  assumes "CHR ''.'' \<notin> set n" and "CHR ''/'' \<notin> set n" and "d = [] \<or> last d = CHR ''/''"
  shows "ext (d @ n) = []"
proof -
  have "extLoop (rev d) p = []" for p
  proof (cases d rule: rev_cases)
    case Nil
    then show ?thesis by simp
  next
    case (snoc d' x)
    with assms(3) show ?thesis by simp
  qed
  with extLoop_skip[of "rev n" "rev d" "[]"] assms(1,2) show ?thesis
    by (simp add: ext_def)
qed

lemma lowerByte_sameLetter:
  assumes "\<not> ((65::nat) \<le> of_char k \<and> of_char k \<le> (90::nat))"
  shows "lowerByte c = k \<longleftrightarrow> sameLetter c k"
proof (cases "(65::nat) \<le> of_char c \<and> of_char c \<le> (90::nat)")
  case True
  then have ne: "c \<noteq> k" using assms by auto
  have "char_of (of_char c + (32::nat)) = k \<longleftrightarrow> of_char c + (32::nat) = of_char k"
  proof
    assume "char_of (of_char c + (32::nat)) = k"
    then have "of_char k = (of_char c + (32::nat)) mod 256"
      by (auto simp: of_char_of)
    with True show "of_char c + (32::nat) = of_char k" by simp
  next
    assume "of_char c + (32::nat) = of_char k"
    then show "char_of (of_char c + (32::nat)) = k" by simp
  qed
  with True ne show ?thesis by (simp add: lowerByte_def sameLetter_def)
next
  case False
  then show ?thesis by (auto simp: lowerByte_def sameLetter_def)
qed

lemma map_lowerByte_sameExtension:
  "list_all (\<lambda>k. \<not> ((65::nat) \<le> of_char k \<and> of_char k \<le> (90::nat))) k \<Longrightarrow>
     map lowerByte e = k \<longleftrightarrow> sameExtension e k"
proof (induction e arbitrary: k)
  case Nil
  show ?case by (auto simp: sameExtension_def)
next
  case (Cons c e)
  show ?case
  proof (cases k)
    case Nil
    then show ?thesis by (simp add: sameExtension_def)
  next
    case (Cons x k')
    with Cons.prems Cons.IH[of k'] lowerByte_sameLetter[of x c] show ?thesis
      by (auto simp: sameExtension_def)
  qed
qed

lemma getMimeType_extension:
  assumes "CHR ''.'' \<notin> set e" and "CHR ''/'' \<notin> set e"
    and "list_all (\<lambda>c. of_char c < (128::nat)) e"
  shows "getMimeType sys (stem @ ''.'' @ e) =
           (if sameExtension e ''jpg'' \<or> sameExtension e ''jpeg'' then ''image/jpeg''
            else if sameExtension e ''png'' then ''image/png''
            else if sameExtension e ''gif'' then ''image/gif''
            else if sameExtension e ''bmp'' then ''image/bmp''
            else if sameExtension e ''webp'' then ''image/webp''
            else if sameExtension e ''svg'' then ''image/svg+xml''
            else if sameExtension e ''ico'' then ''image/x-icon''
            else ''image/png'')"
proof -
  have l: "toLower sys (''.'' @ e) = ''.'' @ map lowerByte e"
    using assms(3) by (simp add: toLower_def lowerByte_def)
  have k: "map lowerByte e = ''jpg'' \<longleftrightarrow> sameExtension e ''jpg''"
    "map lowerByte e = ''jpeg'' \<longleftrightarrow> sameExtension e ''jpeg''"
    "map lowerByte e = ''png'' \<longleftrightarrow> sameExtension e ''png''"
    "map lowerByte e = ''gif'' \<longleftrightarrow> sameExtension e ''gif''"
    "map lowerByte e = ''bmp'' \<longleftrightarrow> sameExtension e ''bmp''"
    "map lowerByte e = ''webp'' \<longleftrightarrow> sameExtension e ''webp''"
    "map lowerByte e = ''svg'' \<longleftrightarrow> sameExtension e ''svg''"
    "map lowerByte e = ''ico'' \<longleftrightarrow> sameExtension e ''ico''"
    by (rule map_lowerByte_sameExtension, simp)+
  show ?thesis
    unfolding getMimeType_table ext_dot[OF assms(1,2)] l Let_def
    using k by simp
qed

lemma getMimeType_no_extension:
  assumes "CHR ''.'' \<notin> set n" and "CHR ''/'' \<notin> set n" and "d = [] \<or> last d = CHR ''/''"
  shows "getMimeType sys (d @ n) = ''image/png''"
  unfolding getMimeType_table ext_none[OF assms]
  by (simp add: toLower_def)

section \<open>The claims\<close>

subsection \<open>Adjacent links\<close>

text \<open>
  C1. Every local \<open>.md\<close> link that is not an image should get its target rewritten. The
  code misses a link that follows another link with nothing in between: the first pass
  needs a byte before the opening bracket, and that byte, the closing parenthesis of the
  link before, is already part of the previous match; the second pass only looks at the
  start of a line. In \<open>x[a](b.md)[c](d.md)\<close> the second target stays \<open>d.md\<close>: the
  scan of the first pass goes from the start of the text to the second link in one
  step, and neither pattern matches there.
\<close>

theorem rewriteMarkdownLinks_adjacent_link_missed:
  "rewriteMarkdownLinks ''x[a](b.md)[c](d.md)'' = ''x[a](b.html)[c](d.md)''
   \<and> scanStates LinkRegex None ''x[a](b.md)[c](d.md)''
       = [(None, ''x[a](b.md)[c](d.md)''), (Some (CHR '')''), ''[c](d.md)''),
          (Some (CHR ''[''), ''c](d.md)''), (Some (CHR ''c''), ''](d.md)''),
          (Some (CHR '']''), ''(d.md)''), (Some (CHR ''(''), ''d.md)''),
          (Some (CHR ''d''), ''.md)''), (Some (CHR ''.''), ''md)''),
          (Some (CHR ''m''), ''d)''), (Some (CHR ''d''), '')''), (Some (CHR '')''), [])]
   \<and> match_at LinkRegex (Some (CHR '')'')) ''[c](d.md)'' = None
   \<and> match_at StartLinkRegex (Some (CHR '')'')) ''[c](d.md)'' = None"
  by code_simp

subsection \<open>Which targets are rewritten\<close>





subsection \<open>Images that cannot be read\<close>

text \<open>
  C3. For every text: when the scan of the image embedder comes to an image whose
  target is not left alone by its prefix and whose file cannot be read, for whatever
  reason the system gives, then the text that \<open>embedImages\<close> returns has the image at
  that place exactly as it was, followed by what the embedder makes of the text behind
  the image; the read of the joined path and one warning line are the events of this
  image, and the events of the images behind it follow. A run of \<open>main\<close> on an input
  file named \<open>*.md\<close> that can be read, with such an image in its text, ends with
  status 0 when the output file can be written: the document it writes has the image
  unchanged in its body, and the warning was printed.
\<close>

theorem unreadable_image_left_alone:
  assumes "CHR '']'' \<notin> set t" and "CHR '')'' \<notin> set u" and "u \<noteq> []"
    and "\<not> imageTargetKept u"
    and "readFile sys (pathJoin sys baseDir u) = Inl err"
  shows
    "((prev, ''!['' @ t @ '']('' @ u @ '')'' @ rest) \<in> set (scanStates ImgRegex None mdContent) \<longrightarrow>
        (\<exists>out evs. embedImages sys mdContent baseDir
           = ((out @ ''!['' @ t @ '']('' @ u @ '')'' @ fst (replaceAllStringFunc ImgRegex (imgRepl sys baseDir) (Some (CHR '')'')) rest), None),
              evs @ ReadFile (pathJoin sys baseDir u) # Print (''Warning: Could not read image '' @ u @ '': '' @ errorString err @ [CHR 0x0A]) # snd (replaceAllStringFunc ImgRegex (imgRepl sys baseDir) (Some (CHR '')'')) rest))))
     \<and> (hasSuffix inputFile ''.md'' \<and> readFile sys inputFile = Inr source
          \<and> pathDir sys inputFile = baseDir
          \<and> (prev, ''!['' @ t @ '']('' @ u @ '')'' @ rest) \<in> set (scanStates ImgRegex None (rewriteMarkdownLinks source))
          \<and> (\<forall>c. writeFile sys (trimSuffix inputFile ''.md'' @ ''.html'') c = None) \<longrightarrow>
        (\<exists>out. fst (main sys fontFamily title (inputFile # others)) = 0
           \<and> WriteFile (trimSuffix inputFile ''.md'' @ ''.html'')
                (createHTMLDocument (render sys (out @ ''!['' @ t @ '']('' @ u @ '')'' @ fst (replaceAllStringFunc ImgRegex (imgRepl sys baseDir) (Some (CHR '')'')) rest))) fontFamily title)
               \<in> set (snd (main sys fontFamily title (inputFile # others)))
           \<and> Print (''Warning: Could not read image '' @ u @ '': '' @ errorString err @ [CHR 0x0A]) \<in> set (snd (main sys fontFamily title (inputFile # others)))))"
proof (intro conjI impI)
  assume m: "(prev, ''!['' @ t @ '']('' @ u @ '')'' @ rest) \<in> set (scanStates ImgRegex None mdContent)"
  have step: "replaceAllStringFunc ImgRegex (imgRepl sys baseDir) prev (''!['' @ t @ '']('' @ u @ '')'' @ rest)
                = ((''!['' @ t @ '']('' @ u @ '')'') @ fst (replaceAllStringFunc ImgRegex (imgRepl sys baseDir) (Some (CHR '')'')) rest), [ReadFile (pathJoin sys baseDir u), Print (''Warning: Could not read image '' @ u @ '': '' @ errorString err @ [CHR 0x0A])] @ snd (replaceAllStringFunc ImgRegex (imgRepl sys baseDir) (Some (CHR '')'')) rest))"
    using unreadable_image_at_state[OF assms, of prev rest] by simp
  from embedImages_at_state[OF m step]
  show "\<exists>out evs. embedImages sys mdContent baseDir
           = ((out @ ''!['' @ t @ '']('' @ u @ '')'' @ fst (replaceAllStringFunc ImgRegex (imgRepl sys baseDir) (Some (CHR '')'')) rest), None),
              evs @ ReadFile (pathJoin sys baseDir u) # Print (''Warning: Could not read image '' @ u @ '': '' @ errorString err @ [CHR 0x0A]) # snd (replaceAllStringFunc ImgRegex (imgRepl sys baseDir) (Some (CHR '')'')) rest))"
    by simp
next
  assume a: "hasSuffix inputFile ''.md'' \<and> readFile sys inputFile = Inr source
          \<and> pathDir sys inputFile = baseDir
          \<and> (prev, ''!['' @ t @ '']('' @ u @ '')'' @ rest) \<in> set (scanStates ImgRegex None (rewriteMarkdownLinks source))
          \<and> (\<forall>c. writeFile sys (trimSuffix inputFile ''.md'' @ ''.html'') c = None)"
  then have md: "hasSuffix inputFile ''.md''" and rd: "readFile sys inputFile = Inr source"
    and dir: "pathDir sys inputFile = baseDir"
    and m: "(prev, ''!['' @ t @ '']('' @ u @ '')'' @ rest) \<in> set (scanStates ImgRegex None (rewriteMarkdownLinks source))"
    and wr: "\<And>c. writeFile sys (trimSuffix inputFile ''.md'' @ ''.html'') c = None"
    by auto
  have step: "replaceAllStringFunc ImgRegex (imgRepl sys baseDir) prev (''!['' @ t @ '']('' @ u @ '')'' @ rest)
                = ((''!['' @ t @ '']('' @ u @ '')'') @ fst (replaceAllStringFunc ImgRegex (imgRepl sys baseDir) (Some (CHR '')'')) rest), [ReadFile (pathJoin sys baseDir u), Print (''Warning: Could not read image '' @ u @ '': '' @ errorString err @ [CHR 0x0A])] @ snd (replaceAllStringFunc ImgRegex (imgRepl sys baseDir) (Some (CHR '')'')) rest))"
    using unreadable_image_at_state[OF assms, of prev rest] by simp
  from embedImages_at_state[OF m step] obtain x evs where
    e: "embedImages sys (rewriteMarkdownLinks source) baseDir
          = ((x @ ''!['' @ t @ '']('' @ u @ '')'' @ fst (replaceAllStringFunc ImgRegex (imgRepl sys baseDir) (Some (CHR '')'')) rest), None), evs @ [ReadFile (pathJoin sys baseDir u), Print (''Warning: Could not read image '' @ u @ '': '' @ errorString err @ [CHR 0x0A])] @ snd (replaceAllStringFunc ImgRegex (imgRepl sys baseDir) (Some (CHR '')'')) rest))"
    by auto
  have "fst (main sys fontFamily title (inputFile # others)) = 0
           \<and> WriteFile (trimSuffix inputFile ''.md'' @ ''.html'')
                (createHTMLDocument (render sys (x @ ''!['' @ t @ '']('' @ u @ '')'' @ fst (replaceAllStringFunc ImgRegex (imgRepl sys baseDir) (Some (CHR '')'')) rest))) fontFamily title)
               \<in> set (snd (main sys fontFamily title (inputFile # others)))
           \<and> Print (''Warning: Could not read image '' @ u @ '': '' @ errorString err @ [CHR 0x0A]) \<in> set (snd (main sys fontFamily title (inputFile # others)))"
    unfolding main_md[OF md] convertMarkdownToHTML_read_ok[OF rd] dir e
    by (simp add: Let_def wr)
  then show "\<exists>out. fst (main sys fontFamily title (inputFile # others)) = 0
           \<and> WriteFile (trimSuffix inputFile ''.md'' @ ''.html'')
                (createHTMLDocument (render sys (out @ ''!['' @ t @ '']('' @ u @ '')'' @ fst (replaceAllStringFunc ImgRegex (imgRepl sys baseDir) (Some (CHR '')'')) rest))) fontFamily title)
               \<in> set (snd (main sys fontFamily title (inputFile # others)))
           \<and> Print (''Warning: Could not read image '' @ u @ '': '' @ errorString err @ [CHR 0x0A]) \<in> set (snd (main sys fontFamily title (inputFile # others)))"
    by blast
qed

theorem unreadable_image_left_alone_witness:
  "(\<exists>out evs.
      embedImages exampleOS ''[Setup](setup.html) ![Logo](logo.PNG) ![Gone](gone.gif)'' ''docs''
        = ((out @ ''![Gone](gone.gif)'', None),
           evs @ [ReadFile ''docs/gone.gif'',
                  Print (''Warning: Could not read image gone.gif: ''
                         @ ''open docs/gone.gif: no such file or directory'' @ [CHR 0x0A])]))
   \<and> (\<exists>out. fst (main exampleOS ''Open Sans'' [] [''docs/guide.md'']) = 0
          \<and> WriteFile ''docs/guide.html''
               (createHTMLDocument (out @ ''![Gone](gone.gif)'') ''Open Sans'' [])
              \<in> set (snd (main exampleOS ''Open Sans'' [] [''docs/guide.md'']))
          \<and> Print (''Warning: Could not read image gone.gif: ''
                    @ ''open docs/gone.gif: no such file or directory'' @ [CHR 0x0A])
              \<in> set (snd (main exampleOS ''Open Sans'' [] [''docs/guide.md''])))"
proof -
  have k: "\<not> imageTargetKept ''gone.gif''"
    by (simp add: imageTargetKept_def hasPrefix_def)
  have p: "pathJoin exampleOS ''docs'' ''gone.gif'' = ''docs/gone.gif''"
    by (simp add: exampleOS_def)
  have r: "readFile exampleOS (pathJoin exampleOS ''docs'' ''gone.gif'')
             = Inl (OSError ''open docs/gone.gif: no such file or directory'')"
    unfolding p by (simp add: exampleOS_def)
  have md: "hasSuffix ''docs/guide.md'' ''.md''" by (simp add: hasSuffix_def)
  have out: "trimSuffix ''docs/guide.md'' ''.md'' @ ''.html'' = ''docs/guide.html''"
    by (simp add: trimSuffix_def hasSuffix_def)
  have rd: "readFile exampleOS ''docs/guide.md''
              = Inr ''[Setup](setup.md) ![Logo](logo.PNG) ![Gone](gone.gif)''"
    by (simp add: exampleOS_def)
  have dir: "pathDir exampleOS ''docs/guide.md'' = ''docs''"
    by (simp add: exampleOS_def)
  have wr: "\<forall>c. writeFile exampleOS ''docs/guide.html'' c = None"
    by (simp add: exampleOS_def)
  have ren: "render exampleOS x = x" for x
    by (simp add: exampleOS_def)
  have rw: "rewriteMarkdownLinks ''[Setup](setup.md) ![Logo](logo.PNG) ![Gone](gone.gif)''
              = ''[Setup](setup.html) ![Logo](logo.PNG) ![Gone](gone.gif)''"
    by code_simp
  have m: "(Some (CHR '' ''), ''![Gone](gone.gif)'')
             \<in> set (scanStates ImgRegex None
                      ''[Setup](setup.html) ![Logo](logo.PNG) ![Gone](gone.gif)'')"
    by (simp add: scanStates.simps(2) match_at.simps bracketed_def wholeLink_def)
  have e: "replaceAllStringFunc ImgRegex (imgRepl exampleOS ''docs'') (Some (CHR '')'')) []
             = ([], [])"
    by simp
  from unreadable_image_left_alone[where t = "''Gone''" and u = "''gone.gif''"
          and sys = exampleOS and baseDir = "''docs''" and prev = "Some (CHR '' '')"
          and rest = "[]"
          and mdContent = "''[Setup](setup.html) ![Logo](logo.PNG) ![Gone](gone.gif)''"
          and source = "''[Setup](setup.md) ![Logo](logo.PNG) ![Gone](gone.gif)''"
          and inputFile = "''docs/guide.md''" and fontFamily = "''Open Sans''"
          and title = "[]" and others = "[]", OF _ _ _ k r]
  show ?thesis
    unfolding p out rw e ren using m md rd dir wr by simp
qed

subsection \<open>Images that can be read\<close>

text \<open>
  C4. For every text: when the scan of the image embedder comes to an image whose
  target is not left alone by its prefix and whose file can be read, then the text that
  \<open>embedImages\<close> returns has at that place the same image with the target
  \<open>data:<mime>;base64,<b64>\<close>, and the read is the only event of this image. \<open><b64>\<close>
  is the standard encoding of the bytes of the file, and the standard decoder gives the
  bytes back. \<open><mime>\<close> is found from the extension of the target, made lower case:
  the seven types of the table, and \<open>image/png\<close> for every other extension. For an
  extension of ASCII bytes, lower case means the letters \<open>A\<close> to \<open>Z\<close> moved to \<open>a\<close> to
  \<open>z\<close>.

  The place is exact: for every text \<open>pre @ ![t](u) @ rest\<close>, when the scan comes to
  the image, \<open>embedImages\<close> returns its text for \<open>pre\<close>, then the image with the new
  target, then its text for \<open>rest\<close>, and the events are those of \<open>pre\<close>, the read
  of the joined path, and those of \<open>rest\<close>.

  The extension and the lookup are pinned down on the target itself. A target
  \<open>stem.e\<close>, with neither a dot nor a slash in \<open>e\<close>, has the extension \<open>.e\<close>; when
  \<open>e\<close> is ASCII, the type is that of the table entry that \<open>e\<close> is equal to without
  regard to case, and \<open>image/png\<close> when there is none. A target whose last path element
  has no dot has the empty extension and the type \<open>image/png\<close>, also when a directory
  before it has a dot in its name.
\<close>

theorem readable_image_embedded:
  assumes "CHR '']'' \<notin> set t" and "CHR '')'' \<notin> set u" and "u \<noteq> []"
    and "\<not> imageTargetKept u"
    and "readFile sys (pathJoin sys baseDir u) = Inr imgData"
  shows
    "((prev, ''!['' @ t @ '']('' @ u @ '')'' @ rest) \<in> set (scanStates ImgRegex None mdContent) \<longrightarrow>
        (\<exists>out evs. embedImages sys mdContent baseDir
           = ((out @ ''!['' @ t @ '']('' @ ''data:'' @ getMimeType sys u @ '';base64,'' @ encodeToString imgData @ '')''
                 @ fst (replaceAllStringFunc ImgRegex (imgRepl sys baseDir) (Some (CHR '')'')) rest),
               None),
              evs @ ReadFile (pathJoin sys baseDir u) # snd (replaceAllStringFunc ImgRegex (imgRepl sys baseDir) (Some (CHR '')'')) rest))))
     \<and> ((prev, ''!['' @ t @ '']('' @ u @ '')'' @ rest)
            \<in> set (scanStates ImgRegex None (pre @ ''!['' @ t @ '']('' @ u @ '')'' @ rest)) \<longrightarrow>
        embedImages sys (pre @ ''!['' @ t @ '']('' @ u @ '')'' @ rest) baseDir
          = ((fst (fst (embedImages sys pre baseDir))
                @ ''!['' @ t @ '']('' @ ''data:'' @ getMimeType sys u @ '';base64,''
                @ encodeToString imgData @ '')''
                @ fst (fst (embedImages sys rest baseDir)), None),
             snd (embedImages sys pre baseDir)
               @ ReadFile (pathJoin sys baseDir u) # snd (embedImages sys rest baseDir)))
     \<and> decodeString (encodeToString imgData) = Some imgData
     \<and> getMimeType sys u =
         (let e = toLower sys (ext u)
          in if e = ''.jpg'' \<or> e = ''.jpeg'' then ''image/jpeg''
             else if e = ''.png'' then ''image/png''
             else if e = ''.gif'' then ''image/gif''
             else if e = ''.bmp'' then ''image/bmp''
             else if e = ''.webp'' then ''image/webp''
             else if e = ''.svg'' then ''image/svg+xml''
             else if e = ''.ico'' then ''image/x-icon''
             else ''image/png'')
     \<and> (list_all (\<lambda>c. of_char c < (128::nat)) (ext u)
            \<longrightarrow> toLower sys (ext u) = map lowerByte (ext u))
     \<and> (u = stem @ ''.'' @ e \<and> CHR ''.'' \<notin> set e \<and> CHR ''/'' \<notin> set e \<longrightarrow>
          ext u = ''.'' @ e)
     \<and> (u = stem @ ''.'' @ e \<and> CHR ''.'' \<notin> set e \<and> CHR ''/'' \<notin> set e
          \<and> list_all (\<lambda>c. of_char c < (128::nat)) e \<longrightarrow>
          getMimeType sys u =
            (if sameExtension e ''jpg'' \<or> sameExtension e ''jpeg'' then ''image/jpeg''
             else if sameExtension e ''png'' then ''image/png''
             else if sameExtension e ''gif'' then ''image/gif''
             else if sameExtension e ''bmp'' then ''image/bmp''
             else if sameExtension e ''webp'' then ''image/webp''
             else if sameExtension e ''svg'' then ''image/svg+xml''
             else if sameExtension e ''ico'' then ''image/x-icon''
             else ''image/png''))
     \<and> (u = dir @ name \<and> (dir = [] \<or> last dir = CHR ''/'')
          \<and> CHR ''.'' \<notin> set name \<and> CHR ''/'' \<notin> set name \<longrightarrow>
          ext u = [] \<and> getMimeType sys u = ''image/png'')"
proof (intro conjI impI, goal_cases)
  case 1
  have step: "replaceAllStringFunc ImgRegex (imgRepl sys baseDir) prev (''!['' @ t @ '']('' @ u @ '')'' @ rest)
                = ((''!['' @ t @ '']('' @ ''data:'' @ getMimeType sys u @ '';base64,'' @ encodeToString imgData @ '')'') @ fst (replaceAllStringFunc ImgRegex (imgRepl sys baseDir) (Some (CHR '')'')) rest), [ReadFile (pathJoin sys baseDir u)] @ snd (replaceAllStringFunc ImgRegex (imgRepl sys baseDir) (Some (CHR '')'')) rest))"
    using readable_image_at_state[OF assms, of prev rest] by simp
  from embedImages_at_state[OF 1 step] show ?case by simp
next
  case 2
  from embed_at_image[OF assms(1-3) 2, of sys baseDir]
    imgRepl_match[OF assms(1-3), of sys baseDir] assms(4,5)
  show ?case by (simp add: wholeLink_def)
next
  case 3
  show ?case by (rule decodeString_encodeToString)
next
  case 4
  show ?case by (rule getMimeType_table)
next
  case 5
  then show ?case by (simp add: toLower_def)
next
  case 6
  then show ?case using ext_dot[of e stem] by simp
next
  case 7
  then show ?case using getMimeType_extension[of e sys stem] by simp
next
  case 8
  then show ?case using ext_none[of name dir] by simp
next
  case 9
  then show ?case using getMimeType_no_extension[of name dir sys] by simp
qed

theorem readable_image_embedded_witness:
  "(\<exists>out evs. embedImages allReadableOS ''See ![Photo](img/photo.JPG).'' ''docs''
       = ((out @ ''![Photo](data:image/jpeg;base64,YWJj)'' @ ''.'', None),
          evs @ [ReadFile ''docs/img/photo.JPG'']))
   \<and> embedImages allReadableOS ''See ![Photo](img/photo.JPG).'' ''docs''
       = ((''See ![Photo](data:image/jpeg;base64,YWJj).'', None),
          [ReadFile ''docs/img/photo.JPG''])
   \<and> decodeString ''YWJj'' = Some ''abc''
   \<and> ext ''img/photo.JPG'' = ''.JPG''
   \<and> toLower allReadableOS ''.JPG'' = ''.jpg''
   \<and> getMimeType allReadableOS ''img/photo.JPG'' = ''image/jpeg''
   \<and> getMimeType allReadableOS ''anim.v2/frame.Gif'' = ''image/gif''
   \<and> getMimeType allReadableOS ''scan.tiff'' = ''image/png''
   \<and> ext ''img.d/photo'' = []
   \<and> getMimeType allReadableOS ''img.d/photo'' = ''image/png''"
proof -
  have k: "\<not> imageTargetKept ''img/photo.JPG''" "\<not> imageTargetKept ''anim.v2/frame.Gif''"
    "\<not> imageTargetKept ''scan.tiff''" "\<not> imageTargetKept ''img.d/photo''"
    by (simp_all add: imageTargetKept_def hasPrefix_def)
  have e: "encodeToString ''abc'' = ''YWJj''"
    by (simp add: enc6_def encodeStd_def Let_def)
  have m: "(Some (CHR '' ''), ''![Photo](img/photo.JPG).'')
             \<in> set (scanStates ImgRegex None ''See ![Photo](img/photo.JPG).'')"
    by (simp add: scanStates.simps(2) match_at.simps bracketed_def wholeLink_def)
  have n: "replaceAllStringFunc ImgRegex (imgRepl allReadableOS ''docs'') (Some (CHR '')'')) ''.''
             = (''.'', [])"
    by (simp add: replaceAllStringFunc.simps(2) match_at.simps)
  note jpg = readable_image_embedded[where t = "''Photo''" and u = "''img/photo.JPG''"
          and sys = allReadableOS and baseDir = "''docs''" and imgData = "''abc''"
          and prev = "Some (CHR '' '')" and rest = "''.''"
          and mdContent = "''See ![Photo](img/photo.JPG).''"
          and stem = "''img/photo''" and e = "''JPG''",
          OF _ _ _ k(1) allReadableOS_readFile]
  have g: "getMimeType allReadableOS ''img/photo.JPG'' = ''image/jpeg''"
    using jpg[THEN conjunct2, THEN conjunct2, THEN conjunct2, THEN conjunct2, THEN conjunct2,
              THEN conjunct2, THEN conjunct1]
    by (simp add: sameExtension_def sameLetter_def)
  have w1: "\<exists>out evs. embedImages allReadableOS ''See ![Photo](img/photo.JPG).'' ''docs''
       = ((out @ ''![Photo](data:image/jpeg;base64,YWJj)'' @ ''.'', None),
          evs @ [ReadFile ''docs/img/photo.JPG''])"
    using jpg[THEN conjunct1] m unfolding g e n allReadableOS_pathJoin by simp
  have p: "embedImages allReadableOS ''See '' ''docs'' = ((''See '', None), [])"
    "embedImages allReadableOS ''.'' ''docs'' = ((''.'', None), [])"
    by (simp_all add: embedImages_result replaceAllStringFunc.simps(2) match_at.simps)
  have m': "(Some (CHR '' ''), ''![Photo](img/photo.JPG).'')
             \<in> set (scanStates ImgRegex None (''See '' @ ''![Photo](img/photo.JPG).''))"
    using m by simp
  have w1': "embedImages allReadableOS ''See ![Photo](img/photo.JPG).'' ''docs''
       = ((''See ![Photo](data:image/jpeg;base64,YWJj).'', None),
          [ReadFile ''docs/img/photo.JPG''])"
    using jpg[where pre = "''See ''", THEN conjunct2, THEN conjunct1] m'
    unfolding g e p allReadableOS_pathJoin by simp
  have w2: "decodeString ''YWJj'' = Some ''abc''"
    using jpg[THEN conjunct2, THEN conjunct2, THEN conjunct1] unfolding e by simp
  have w3: "ext ''img/photo.JPG'' = ''.JPG''"
    using jpg[THEN conjunct2, THEN conjunct2, THEN conjunct2, THEN conjunct2, THEN conjunct2,
              THEN conjunct1]
    by simp
  have lb: "map lowerByte ''.JPG'' = ''.jpg''" by code_simp
  have w4: "toLower allReadableOS ''.JPG'' = ''.jpg''"
    using jpg[THEN conjunct2, THEN conjunct2, THEN conjunct2, THEN conjunct2, THEN conjunct1]
    unfolding w3 lb by simp
  have w5: "getMimeType allReadableOS ''anim.v2/frame.Gif'' = ''image/gif''"
    using readable_image_embedded[where u = "''anim.v2/frame.Gif''" and t = "[]"
          and sys = allReadableOS and baseDir = "''docs''" and imgData = "''abc''"
          and stem = "''anim.v2/frame''" and e = "''Gif''",
          OF _ _ _ k(2) allReadableOS_readFile,
          THEN conjunct2, THEN conjunct2, THEN conjunct2, THEN conjunct2, THEN conjunct2,
          THEN conjunct2, THEN conjunct1]
    by (simp add: sameExtension_def sameLetter_def)
  have w6: "getMimeType allReadableOS ''scan.tiff'' = ''image/png''"
    using readable_image_embedded[where u = "''scan.tiff''" and t = "[]"
          and sys = allReadableOS and baseDir = "''docs''" and imgData = "''abc''"
          and stem = "''scan''" and e = "''tiff''",
          OF _ _ _ k(3) allReadableOS_readFile,
          THEN conjunct2, THEN conjunct2, THEN conjunct2, THEN conjunct2, THEN conjunct2,
          THEN conjunct2, THEN conjunct1]
    by (simp add: sameExtension_def sameLetter_def)
  have w7: "ext ''img.d/photo'' = [] \<and> getMimeType allReadableOS ''img.d/photo'' = ''image/png''"
    using readable_image_embedded[where u = "''img.d/photo''" and t = "[]"
          and sys = allReadableOS and baseDir = "''docs''" and imgData = "''abc''"
          and dir = "''img.d/''" and name = "''photo''",
          OF _ _ _ k(4) allReadableOS_readFile,
          THEN conjunct2, THEN conjunct2, THEN conjunct2, THEN conjunct2, THEN conjunct2,
          THEN conjunct2, THEN conjunct2]
    by simp
  from w1 w1' w2 w3 w4 g w5 w6 w7 show ?thesis by blast
qed

subsection \<open>A link at the very start\<close>

text \<open>
  C5. A link that is the first thing in the text, with no byte before it, is rewritten
  by the second pass: its target becomes what the link policy says, whatever follows
  the link. The statement is for a link text and a target without an opening bracket,
  so that no other link starts inside them. For \<open>[Guide](./setup.md)\<close> the result is
  \<open>[Guide](./setup.html)\<close>.
\<close>

theorem first_link_is_rewritten:
  assumes "CHR '']'' \<notin> set t" and "CHR ''['' \<notin> set t"
    and "CHR '')'' \<notin> set u" and "CHR ''['' \<notin> set u" and "u \<noteq> []"
  shows
    "rewriteMarkdownLinks (''['' @ t @ '']('' @ u @ '')'')
       = ''['' @ t @ '']('' @ (if linkTargetKept u then u else mdToHtml u) @ '')'' \<and>
     (\<exists>out. rewriteMarkdownLinks (''['' @ t @ '']('' @ u @ '')'' @ rest)
        = ''['' @ t @ '']('' @ (if linkTargetKept u then u else mdToHtml u) @ '')'' @ out)"
proof -
  let ?u' = "if linkTargetKept u then u else mdToHtml u"
  have no: "CHR ''['' \<notin> set (t @ '']('' @ u)" using assms by simp
  have pass1: "\<exists>x. fst (replaceAllStringFunc LinkRegex (pureRepl linkRepl) None
                         (wholeLink t u @ r)) = wholeLink t u @ x \<and> (r = [] \<longrightarrow> x = [])" for r
  proof (cases r)
    case Nil
    have "CHR ''['' \<notin> set (t @ '']('' @ u @ '')'')" using assms by simp
    from link_scan_no_open[OF this, of "pureRepl linkRepl" None "CHR ''[''" "[]" None] Nil
    show ?thesis by (simp add: wholeLink_def butlast_append link_scan_single)
  next
    case (Cons a r')
    obtain out where
      "fst (replaceAllStringFunc LinkRegex (pureRepl linkRepl) None (CHR '')'' # r)) = CHR '')'' # out"
      using link_scan_keeps_first[of None "CHR '')''" r] by auto
    moreover have "last (''['' @ t @ '']('' @ u @ '')'') = CHR '')''" by simp
    moreover have "CHR ''['' \<notin> set (t @ '']('' @ u @ '')'')" using assms by simp
    from link_scan_no_open[OF this, of "pureRepl linkRepl" None "CHR ''[''" r None]
    have "fst (replaceAllStringFunc LinkRegex (pureRepl linkRepl) None (wholeLink t u @ r))
            = (''['' @ t @ '']('' @ u)
              @ fst (replaceAllStringFunc LinkRegex (pureRepl linkRepl) None (CHR '')'' # r))"
      by (simp add: wholeLink_def butlast_append)
    ultimately show ?thesis using Cons by (simp add: wholeLink_def)
  qed
  have pass2: "fst (replaceAllStringFunc StartLinkRegex (pureRepl startLinkRepl) None
                      (wholeLink t u @ x))
                 = wholeLink t ?u'
                   @ fst (replaceAllStringFunc StartLinkRegex (pureRepl startLinkRepl)
                            (Some (CHR '')'')) x)" for x
    using replaceAllStringFunc_match[OF match_at_startLink[OF _ assms(1,3,5), of None x],
            of "pureRepl startLinkRepl"] startLinkRepl_match[OF assms(1,3,5)]
    by (simp add: pureRepl_def last_wholeLink)
  have both: "\<exists>out. rewriteMarkdownLinks (wholeLink t u @ r) = wholeLink t ?u' @ out
                 \<and> (r = [] \<longrightarrow> out = [])" for r
  proof -
    from pass1[of r] obtain x where
      x: "fst (replaceAllStringFunc LinkRegex (pureRepl linkRepl) None (wholeLink t u @ r))
            = wholeLink t u @ x" and e: "r = [] \<longrightarrow> x = []"
      by blast
    show ?thesis
      unfolding rewriteMarkdownLinks_def Let_def x pass2 using e by auto
  qed
  from both[of "[]"] both[of rest] show ?thesis
    by (auto simp: wholeLink_def)
qed

theorem first_link_is_rewritten_witness:
  "rewriteMarkdownLinks ''[Guide](./setup.md)'' = ''[Guide](./setup.html)''"
  using first_link_is_rewritten[where t = "''Guide''" and u = "''./setup.md''"]
  by (simp add: linkTargetKept_def mdToHtml_def hasPrefix_def hasSuffix_def trimSuffix_def)

subsection \<open>Targets that are left alone\<close>

text \<open>
  C6, as stated: the link rewriter is the identity on every link whose target starts
  with \<open>http://\<close>, \<open>https://\<close> or \<open>#\<close>. Its two passes do not see the same matches. In
  \<open>[t](http://x [b](c.md)\<close> the second pass finds the whole text as a link at the start
  of the line, with a target that starts with \<open>http://\<close>; the first pass, which needs
  a byte before the bracket, has found the link \<open>[b](c.md)\<close> inside that target
  before and has rewritten it. In \<open>[m](y [Go](https://x.md)\<close> the first pass finds the
  link to \<open>https://x.md\<close> and leaves it alone; the second pass finds the whole text
  as a link with the target \<open>y [Go](https://x.md\<close> and rewrites its end.
\<close>

theorem kept_link_changed_by_other_pass:
  "linkTargetKept ''http://x [b](c.md''
   \<and> rewriteMarkdownLinks ''[t](http://x [b](c.md)'' = ''[t](http://x [b](c.html)''
   \<and> linkTargetKept ''https://x.md''
   \<and> rewriteMarkdownLinks ''[m](y [Go](https://x.md)'' = ''[m](y [Go](https://x.html)''"
  by code_simp

text \<open>
  C6, amended. A link or image whose target is left alone by its prefix comes out as it
  went in at every place the scan of a pass comes to, and the rewriter as a whole leaves
  it alone when no other match overlaps it.

  \<^item> First pass: for every text \<open>pre @ c # [t](u) @ rest\<close> with \<open>c\<close> other than \<open>!\<close> and
    \<open>u\<close> starting with \<open>http://\<close>, \<open>https://\<close> or \<open>#\<close>, when the scan of the first pass
    comes to \<open>c\<close>, the output of the pass is its output for \<open>pre\<close>, then \<open>c\<close> and the
    link as they were, then its output for \<open>rest\<close>.
  \<^item> Second pass: the same for a link at the start of the text or of a line that the
    scan of the second pass comes to.
  \<^item> \<open>rewriteMarkdownLinks\<close> as a whole, for such a link with no \<open>[\<close> in its text and
    target: when the scan of the first pass comes to \<open>c\<close> and the scan of the second
    pass, on the output of the first, comes to the link (no match of either pass that
    starts before the link ends in it or takes it in), the result is what the passes
    make of the text before the link, then the link as it was, then what the passes make
    of \<open>rest\<close>. This covers the first link of a text, which has no \<open>[\<close> before it, and
    a link at the very start of the text.
  \<^item> Image embedder: for every text \<open>pre @ ![t](u) @ rest\<close> with \<open>u\<close> starting with
    \<open>http://\<close>, \<open>https://\<close> or \<open>data:\<close>, when the scan comes to the image,
    \<open>embedImages\<close> returns its text for \<open>pre\<close>, then the image as it was, then its
    text for \<open>rest\<close>, and the events are those of \<open>pre\<close> followed by those of \<open>rest\<close>:
    the image causes no read and no print.
\<close>

theorem kept_targets_unchanged:
  assumes "CHR '']'' \<notin> set t" and "CHR '')'' \<notin> set u" and "u \<noteq> []"
  shows
    "(linkTargetKept u \<and> c \<noteq> CHR ''!''
        \<and> (prev, c # ''['' @ t @ '']('' @ u @ '')'' @ rest)
            \<in> set (scanStates LinkRegex None (pre @ c # ''['' @ t @ '']('' @ u @ '')'' @ rest)) \<longrightarrow>
        linkPass (pre @ c # ''['' @ t @ '']('' @ u @ '')'' @ rest)
          = linkPass pre @ c # ''['' @ t @ '']('' @ u @ '')'' @ linkPass rest) \<and>
     (linkTargetKept u \<and> (prev = None \<or> prev = Some (CHR 0x0A))
        \<and> (prev, ''['' @ t @ '']('' @ u @ '')'' @ rest)
            \<in> set (scanStates StartLinkRegex None (pre @ ''['' @ t @ '']('' @ u @ '')'' @ rest)) \<longrightarrow>
        startLinkPass None (pre @ ''['' @ t @ '']('' @ u @ '')'' @ rest)
          = startLinkPass None pre @ ''['' @ t @ '']('' @ u @ '')'' @ startLinkPass (Some (CHR '')'')) rest) \<and>
     (linkTargetKept u \<and> c \<noteq> CHR ''!'' \<and> CHR ''['' \<notin> set t \<and> CHR ''['' \<notin> set u
        \<and> (prev, c # ''['' @ t @ '']('' @ u @ '')'' @ rest)
            \<in> set (scanStates LinkRegex None (pre @ c # ''['' @ t @ '']('' @ u @ '')'' @ rest))
        \<and> (Some c, ''['' @ t @ '']('' @ u @ '')'' @ linkPass rest)
            \<in> set (scanStates StartLinkRegex None
                     ((linkPass pre @ [c]) @ ''['' @ t @ '']('' @ u @ '')'' @ linkPass rest)) \<longrightarrow>
        rewriteMarkdownLinks (pre @ c # ''['' @ t @ '']('' @ u @ '')'' @ rest)
          = startLinkPass None (linkPass pre @ [c]) @ ''['' @ t @ '']('' @ u @ '')''
            @ startLinkPass (Some (CHR '')'')) (linkPass rest)) \<and>
     (linkTargetKept u \<and> c \<noteq> CHR ''!'' \<and> c \<noteq> CHR ''[''
        \<and> CHR ''['' \<notin> set t \<and> CHR ''['' \<notin> set u \<and> CHR ''['' \<notin> set pre \<longrightarrow>
        rewriteMarkdownLinks (pre @ c # ''['' @ t @ '']('' @ u @ '')'' @ rest)
          = pre @ c # ''['' @ t @ '']('' @ u @ '')'' @ startLinkPass (Some (CHR '')'')) (linkPass rest)) \<and>
     (linkTargetKept u \<and> CHR ''['' \<notin> set t \<and> CHR ''['' \<notin> set u \<longrightarrow>
        rewriteMarkdownLinks (''['' @ t @ '']('' @ u @ '')'' @ rest)
          = ''['' @ t @ '']('' @ u @ '')'' @ startLinkPass (Some (CHR '')'')) (tl (linkPass ('')'' @ rest)))) \<and>
     (imageTargetKept u
        \<and> (prev, ''!['' @ t @ '']('' @ u @ '')'' @ rest)
            \<in> set (scanStates ImgRegex None (pre @ ''!['' @ t @ '']('' @ u @ '')'' @ rest)) \<longrightarrow>
        embedImages sys (pre @ ''!['' @ t @ '']('' @ u @ '')'' @ rest) baseDir
          = ((fst (fst (embedImages sys pre baseDir)) @ ''!['' @ t @ '']('' @ u @ '')''
                @ fst (fst (embedImages sys rest baseDir)), None),
             snd (embedImages sys pre baseDir) @ snd (embedImages sys rest baseDir)))"
proof (intro conjI impI, goal_cases)
  case 1
  from first_pass_at_link[OF assms 1[THEN conjunct2, THEN conjunct1]
         1[THEN conjunct2, THEN conjunct2]] 1[THEN conjunct1]
  show ?case by simp
next
  case 2
  from second_pass_at_link[OF assms 2[THEN conjunct2, THEN conjunct1]
         2[THEN conjunct2, THEN conjunct2]] 2[THEN conjunct1]
  show ?case by simp
next
  case 3
  then have k: "linkTargetKept u" and c: "c \<noteq> CHR ''!''"
    and t: "CHR ''['' \<notin> set t" and u: "CHR ''['' \<notin> set u"
    by simp_all
  note s = 3[THEN conjunct2, THEN conjunct2, THEN conjunct2, THEN conjunct2]
  from k have v: "(if linkTargetKept u then u else mdToHtml u) = u" by simp
  from rewriter_at_link[OF assms c t u s[THEN conjunct1], unfolded v, OF s[THEN conjunct2]]
  show ?case .
next
  case 4
  then have k: "linkTargetKept u" and c: "c \<noteq> CHR ''!''" "c \<noteq> CHR ''[''"
    and t: "CHR ''['' \<notin> set t" and u: "CHR ''['' \<notin> set u" and p: "CHR ''['' \<notin> set pre"
    by simp_all
  from rewriter_first_link[OF assms c(1) t u p c(2), of rest] k
  show ?case by simp
next
  case 5
  then have k: "linkTargetKept u"
    and t: "CHR ''['' \<notin> set t" and u: "CHR ''['' \<notin> set u"
    by simp_all
  from rewriter_at_start[OF assms t u, of rest] k
  show ?case by simp
next
  case 6
  from embed_at_image[OF assms 6[THEN conjunct2], of sys baseDir]
    imgRepl_match[OF assms, of sys baseDir] 6[THEN conjunct1]
  show ?case by (simp add: wholeLink_def)
qed

theorem kept_targets_unchanged_witness:
  "linkPass ''See [top](#top.md)'' = ''See [top](#top.md)''
   \<and> startLinkPass None ''[Go Doc](https://golang.org/doc/)'' = ''[Go Doc](https://golang.org/doc/)''
   \<and> rewriteMarkdownLinks ''[a](b.md) [top](#top.md), [c](d.md)''
         = ''[a](b.html) [top](#top.md), [c](d.html)''
   \<and> rewriteMarkdownLinks ''See [top](#top.md)'' = ''See [top](#top.md)''
   \<and> rewriteMarkdownLinks ''[Go Doc](https://golang.org/doc/), [c](d.md)''
         = ''[Go Doc](https://golang.org/doc/), [c](d.html)''
   \<and> embedImages exampleOS ''Logo: ![i](data:image/gif;base64,AAAA) ![Gone](gone.gif)'' ''docs''
         = ((''Logo: ![i](data:image/gif;base64,AAAA) ![Gone](gone.gif)'', None),
            [ReadFile ''docs/gone.gif'',
             Print (''Warning: Could not read image gone.gif: ''
                    @ ''open docs/gone.gif: no such file or directory'' @ [CHR 0x0A])])"
proof -
  have k: "linkTargetKept ''#top.md''" "linkTargetKept ''https://golang.org/doc/''"
    "imageTargetKept ''data:image/gif;base64,AAAA''"
    by (simp_all add: linkTargetKept_def imageTargetKept_def hasPrefix_def)
  have m1: "(Some (CHR ''e''), '' [top](#top.md)'')
              \<in> set (scanStates LinkRegex None ''See [top](#top.md)'')"
    by (simp add: scanStates.simps(2) match_at.simps bracketed_def wholeLink_def)
  have m2: "(None, ''[Go Doc](https://golang.org/doc/)'')
              \<in> set (scanStates StartLinkRegex None ''[Go Doc](https://golang.org/doc/)'')"
    by (simp add: scanStates.simps(2))
  have m3: "(Some (CHR '')''), '' [top](#top.md), [c](d.md)'')
              \<in> set (scanStates LinkRegex None ''[a](b.md) [top](#top.md), [c](d.md)'')"
    by (simp add: scanStates.simps(2) match_at.simps bracketed_def wholeLink_def)
  have m4: "(Some (CHR '' ''), ''[top](#top.md), [c](d.html)'')
              \<in> set (scanStates StartLinkRegex None ''[a](b.md) [top](#top.md), [c](d.html)'')"
    by (simp add: scanStates.simps(2) match_at.simps bracketed_def wholeLink_def)
  have m5: "(Some (CHR '' ''), ''![i](data:image/gif;base64,AAAA) ![Gone](gone.gif)'')
              \<in> set (scanStates ImgRegex None
                       ''Logo: ![i](data:image/gif;base64,AAAA) ![Gone](gone.gif)'')"
    by (simp add: scanStates.simps(2) match_at.simps bracketed_def wholeLink_def)
  have l1: "linkPass ''See'' = ''See''" "linkPass [] = []"
    "linkPass ''[a](b.md)'' = ''[a](b.md)''"
    "linkPass '', [c](d.md)'' = '', [c](d.html)''"
    "tl (linkPass ''), [c](d.md)'') = '', [c](d.html)''"
    by code_simp+
  have l2: "startLinkPass None [] = []" "startLinkPass (Some (CHR '')'')) [] = []"
    "startLinkPass None ''[a](b.md) '' = ''[a](b.html) ''"
    "startLinkPass (Some (CHR '')'')) '', [c](d.html)'' = '', [c](d.html)''"
    by code_simp+
  have e1: "embedImages exampleOS ''Logo: '' ''docs'' = ((''Logo: '', None), [])"
    by (simp add: embedImages_result replaceAllStringFunc.simps(2) match_at.simps)
  have e2: "embedImages exampleOS '' ![Gone](gone.gif)'' ''docs''
              = (('' ![Gone](gone.gif)'', None),
                 [ReadFile ''docs/gone.gif'',
                  Print (''Warning: Could not read image gone.gif: ''
                         @ ''open docs/gone.gif: no such file or directory'' @ [CHR 0x0A])])"
    by code_simp
  have w1: "linkPass ''See [top](#top.md)'' = ''See [top](#top.md)''"
    using kept_targets_unchanged[where t = "''top''" and u = "''#top.md''" and c = "CHR '' ''"
            and prev = "Some (CHR ''e'')" and rest = "[]" and pre = "''See''", THEN conjunct1]
      m1 k by (simp add: l1)
  have w2: "startLinkPass None ''[Go Doc](https://golang.org/doc/)''
              = ''[Go Doc](https://golang.org/doc/)''"
    using kept_targets_unchanged[where t = "''Go Doc''" and u = "''https://golang.org/doc/''"
            and prev = None and rest = "[]" and pre = "[]", THEN conjunct2, THEN conjunct1]
      m2 k by (simp add: l2)
  have w3: "rewriteMarkdownLinks ''[a](b.md) [top](#top.md), [c](d.md)''
              = ''[a](b.html) [top](#top.md), [c](d.html)''"
    using kept_targets_unchanged[where t = "''top''" and u = "''#top.md''" and c = "CHR '' ''"
            and prev = "Some (CHR '')'')" and rest = "'', [c](d.md)''"
            and pre = "''[a](b.md)''", THEN conjunct2, THEN conjunct2, THEN conjunct1]
      m3 m4 k by (simp add: l1 l2)
  have w4: "rewriteMarkdownLinks ''See [top](#top.md)'' = ''See [top](#top.md)''"
    using kept_targets_unchanged[where t = "''top''" and u = "''#top.md''" and c = "CHR '' ''"
            and rest = "[]" and pre = "''See''", THEN conjunct2, THEN conjunct2, THEN conjunct2, THEN conjunct1]
      k by (simp add: l1 l2)
  have w5: "rewriteMarkdownLinks ''[Go Doc](https://golang.org/doc/), [c](d.md)''
              = ''[Go Doc](https://golang.org/doc/), [c](d.html)''"
    using kept_targets_unchanged[where t = "''Go Doc''" and u = "''https://golang.org/doc/''"
            and rest = "'', [c](d.md)''", THEN conjunct2, THEN conjunct2, THEN conjunct2, THEN conjunct2, THEN conjunct1]
      k by (simp add: l1 l2)
  have w6: "embedImages exampleOS ''Logo: ![i](data:image/gif;base64,AAAA) ![Gone](gone.gif)''
              ''docs''
         = ((''Logo: ![i](data:image/gif;base64,AAAA) ![Gone](gone.gif)'', None),
            [ReadFile ''docs/gone.gif'',
             Print (''Warning: Could not read image gone.gif: ''
                    @ ''open docs/gone.gif: no such file or directory'' @ [CHR 0x0A])])"
    using kept_targets_unchanged[where t = "''i''" and u = "''data:image/gif;base64,AAAA''"
            and prev = "Some (CHR '' '')" and rest = "'' ![Gone](gone.gif)''" and sys = exampleOS
            and baseDir = "''docs''" and pre = "''Logo: ''", THEN conjunct2, THEN conjunct2, THEN conjunct2, THEN conjunct2, THEN conjunct2]
      m5 k by (simp add: e1 e2)
  from w1 w2 w3 w4 w5 w6 show ?thesis by blast
qed

subsection \<open>The extension of the input file\<close>

text \<open>
  C7. When the first argument does not end with \<open>.md\<close>, \<open>main\<close> prints the error line
  and exits with status 1; it asks for no file to be read or written. When it ends
  with \<open>.md\<close>, the only file \<open>main\<close> ever asks to write is the argument with the final
  \<open>.md\<close> cut off and \<open>.html\<close> put in its place, and it does ask to write it whenever
  the input file can be read.
\<close>

theorem input_must_end_in_md:
  "(\<not> hasSuffix inputFile ''.md'' \<longrightarrow>
      main sys fontFamily title (inputFile # others)
        = (1, [Print (''Error: Input file must have .md extension'' @ [CHR 0x0A])]))
   \<and> (hasSuffix inputFile ''.md'' \<longrightarrow>
        inputFile = take (length inputFile - 3) inputFile @ ''.md''
        \<and> (\<forall>p c. WriteFile p c \<in> set (snd (main sys fontFamily title (inputFile # others)))
               \<longrightarrow> p = take (length inputFile - 3) inputFile @ ''.html'')
        \<and> (\<forall>mdContent. readFile sys inputFile = Inr mdContent
               \<longrightarrow> (\<exists>doc. WriteFile (take (length inputFile - 3) inputFile @ ''.html'') doc
                            \<in> set (snd (main sys fontFamily title (inputFile # others))))))"
proof (intro conjI impI allI)
  assume "\<not> hasSuffix inputFile ''.md''"
  then show "main sys fontFamily title (inputFile # others)
        = (1, [Print (''Error: Input file must have .md extension'' @ [CHR 0x0A])])"
    by (simp add: main_def)
next
  assume md: "hasSuffix inputFile ''.md''"
  then have d: "drop (length inputFile - 3) inputFile = ''.md''"
    by (simp add: hasSuffix_md)
  show "inputFile = take (length inputFile - 3) inputFile @ ''.md''"
    using append_take_drop_id[of "length inputFile - 3" inputFile] d by simp
next
  fix p c
  assume md: "hasSuffix inputFile ''.md''"
    and w: "WriteFile p c \<in> set (snd (main sys fontFamily title (inputFile # others)))"
  have t: "trimSuffix inputFile ''.md'' = take (length inputFile - 3) inputFile"
    using md by (rule trimSuffix_md)
  from w have "WriteFile p c \<in> set (snd (convertMarkdownToHTML sys inputFile
                  (take (length inputFile - 3) inputFile @ ''.html'') fontFamily title))"
    unfolding main_md[OF md] t by (auto simp: Let_def split: option.splits)
  then show "p = take (length inputFile - 3) inputFile @ ''.html''"
    by (rule convertMarkdownToHTML_writes)
next
  fix mdContent
  assume md: "hasSuffix inputFile ''.md''" and rd: "readFile sys inputFile = Inr mdContent"
  have t: "trimSuffix inputFile ''.md'' = take (length inputFile - 3) inputFile"
    using md by (rule trimSuffix_md)
  show "\<exists>doc. WriteFile (take (length inputFile - 3) inputFile @ ''.html'') doc
                 \<in> set (snd (main sys fontFamily title (inputFile # others)))"
    unfolding main_md[OF md] t convertMarkdownToHTML_read_ok[OF rd]
    by (auto simp: Let_def split: option.splits)
qed

theorem input_must_end_in_md_witness:
  "main exampleOS ''Open Sans'' [] [''notes.txt'']
     = (1, [Print (''Error: Input file must have .md extension'' @ [CHR 0x0A])])
   \<and> ''docs/guide.md'' = ''docs/guide'' @ ''.md''
   \<and> (\<exists>doc. WriteFile ''docs/guide.html'' doc
                \<in> set (snd (main exampleOS ''Open Sans'' [] [''docs/guide.md''])))"
proof -
  have n: "\<not> hasSuffix ''notes.txt'' ''.md''" by (simp add: hasSuffix_def)
  have md: "hasSuffix ''docs/guide.md'' ''.md''" by (simp add: hasSuffix_def)
  have rd: "readFile exampleOS ''docs/guide.md''
              = Inr ''[Setup](setup.md) ![Logo](logo.PNG) ![Gone](gone.gif)''"
    by (simp add: exampleOS_def)
  from input_must_end_in_md[where inputFile = "''notes.txt''" and sys = exampleOS
         and fontFamily = "''Open Sans''" and title = "[]" and others = "[]"]
       input_must_end_in_md[where inputFile = "''docs/guide.md''" and sys = exampleOS
         and fontFamily = "''Open Sans''" and title = "[]" and others = "[]"]
  show ?thesis using n md rd by simp
qed

subsection \<open>The document\<close>

text \<open>
  C8. For every fragment, font name and title, the empty title too, the document is the
  fixed text with four gaps filled: the title between \<open><title>\<close> and \<open></title>\<close>, the
  font name with every space turned into \<open>+\<close> behind \<open>family=\<close> in the link to the
  stylesheet, the font name in the style sheet, and the fragment between the line
  \<open><body>\<close> and the line \<open></body>\<close>. Title, font name and fragment are put in as they
  are. The document starts with \<open><!DOCTYPE html>\<close> and ends with \<open></html>\<close>.
\<close>

theorem createHTMLDocument_substitutes:
  \<open>createHTMLDocument body fontFamily title
     = templateHead @ title @ templateFonts
       @ map (\<lambda>c. if c = CHR '' '' then CHR ''+'' else c) fontFamily
       @ templateStyle @ fontFamily @ templateRules @ body @ templateEnd
   \<and> hasPrefix templateHead ''<!DOCTYPE html>''
   \<and> hasSuffix templateHead ''<title>''
   \<and> hasPrefix templateFonts ''</title>''
   \<and> hasSuffix templateFonts ''<link href="https://fonts.googleapis.com/css2?family=''
   \<and> hasPrefix templateStyle '':wght@300;400;600;700&display=swap" rel="stylesheet">''
   \<and> hasSuffix templateRules (''<body>'' @ [CHR 0x0A])
   \<and> templateEnd = [CHR 0x0A] @ ''</body>'' @ [CHR 0x0A] @ ''</html>''\<close>
proof (intro conjI)
  show "createHTMLDocument body fontFamily title
     = templateHead @ title @ templateFonts
       @ map (\<lambda>c. if c = CHR '' '' then CHR ''+'' else c) fontFamily
       @ templateStyle @ fontFamily @ templateRules @ body @ templateEnd"
    by (simp add: createHTMLDocument_def replaceAll_space)
  show "hasPrefix templateHead ''<!DOCTYPE html>''"
    unfolding templateHead_def
    by (intro hasPrefix_appendI) (simp add: hasPrefix_def)
  show "hasSuffix templateHead ''<title>''"
    unfolding templateHead_def
    by (intro hasSuffix_appendI) (simp add: hasSuffix_def)
  show "hasPrefix templateFonts ''</title>''"
    unfolding templateFonts_def
    by (intro hasPrefix_appendI) (simp add: hasPrefix_def)
  show \<open>hasSuffix templateFonts ''<link href="https://fonts.googleapis.com/css2?family=''\<close>
    unfolding templateFonts_def
    by (intro hasSuffix_appendI) (simp add: hasSuffix_def)
  show \<open>hasPrefix templateStyle '':wght@300;400;600;700&display=swap" rel="stylesheet">''\<close>
    unfolding templateStyle_def
    by (intro hasPrefix_appendI) (simp add: hasPrefix_def)
  show "hasSuffix templateRules (''<body>'' @ [CHR 0x0A])"
    unfolding templateRules_def
    by (intro hasSuffix_appendI) (simp add: hasSuffix_def)
  show "templateEnd = [CHR 0x0A] @ ''</body>'' @ [CHR 0x0A] @ ''</html>''"
    by (simp add: templateEnd_def)
qed

subsection \<open>The error of the image embedder\<close>

text \<open>
  C9. The error that \<open>embedImages\<close> returns is \<open>nil\<close> for every text, base directory
  and system, and \<open>convertMarkdownToHTML\<close> never returns the error
  \<open>failed to process images\<close>.
\<close>

theorem embedImages_never_fails:
  "snd (fst (embedImages sys mdContent baseDir)) = None
   \<and> fst (convertMarkdownToHTML sys inputFile outputFile fontFamily title)
       \<noteq> Some (Wrap ''failed to process images: '' e)"
proof
  show "snd (fst (embedImages sys mdContent baseDir)) = None"
    by (simp add: embedImages_result)
  show "fst (convertMarkdownToHTML sys inputFile outputFile fontFamily title)
       \<noteq> Some (Wrap ''failed to process images: '' e)"
  proof (cases "readFile sys inputFile")
    case (Inl err)
    then show ?thesis by (simp add: convertMarkdownToHTML_def)
  next
    case (Inr mdContent)
    show ?thesis
      unfolding convertMarkdownToHTML_read_ok[OF Inr]
      by (simp add: Let_def split: option.splits)
  qed
qed

subsection \<open>Spans with an empty target\<close>

text \<open>
  C10, as stated: for every text, a span \<open>[text]()\<close> or \<open>![alt]()\<close> is left as it is.
  A match that starts before the span can end inside it or take it in. In
  \<open>[m](y [x.md)b]()\<close> the second pass of the link rewriter finds the link
  \<open>[m](y [x.md)\<close>, which ends inside the text of the span \<open>[x.md)b]()\<close>, and rewrites
  its target. In \<open>![x](![a]()\<close> the image pattern matches the whole text, with the
  target \<open>![a](\<close>; where a file of that name can be read, the whole text is replaced,
  and the span \<open>![a]()\<close> in it is gone.
\<close>

theorem empty_span_changed_by_other_match:
  "''[m](y [x.md)b]()'' = ''[m](y '' @ ''[x.md)b]()''
   \<and> rewriteMarkdownLinks ''[m](y [x.md)b]()'' = ''[m](y [x.html)b]()''
   \<and> ''![x](![a]()'' = ''![x]('' @ ''![a]()''
   \<and> embedImages allReadableOS ''![x](![a]()'' ''docs''
       = ((''![x](data:image/png;base64,YWJj)'', None), [ReadFile ''docs/![a](''])"
proof -
  have k: "\<not> imageTargetKept ''![a](''"
    by (simp add: imageTargetKept_def hasPrefix_def)
  have x: "ext ''![a]('' = []" by (simp add: ext_def)
  have l: "toLower allReadableOS [] = []" by (simp add: toLower_def)
  have m: "getMimeType allReadableOS ''![a]('' = ''image/png''"
    by (simp add: getMimeType_def x l mimeTypes_def)
  have e: "encodeToString ''abc'' = ''YWJj''"
    by (simp add: enc6_def encodeStd_def Let_def)
  have r: "imgRepl allReadableOS ''docs'' (CHR ''!'' # wholeLink ''x'' ''![a]('')
             = (''![x](data:image/png;base64,YWJj)'', [ReadFile ''docs/![a](''])"
    unfolding imgRepl_match[of "''x''" "''![a](''" allReadableOS "''docs''", simplified] allReadableOS_readFile allReadableOS_pathJoin m
    using k by (simp add: wholeLink_def e del: encodeToString.simps)
  have ma: "match_at ImgRegex None (CHR ''!'' # wholeLink ''x'' ''![a]('' @ [])
              = Some (CHR ''!'' # wholeLink ''x'' ''![a]('', [''x'', ''![a](''], [])"
    by (rule match_at_img) simp_all
  have "replaceAllStringFunc ImgRegex (imgRepl allReadableOS ''docs'') None
          (CHR ''!'' # wholeLink ''x'' ''![a]('' @ [])
          = (''![x](data:image/png;base64,YWJj)'', [ReadFile ''docs/![a](''])"
    using replaceAllStringFunc_match[OF ma, of "imgRepl allReadableOS ''docs''"] r
    by simp
  then have img: "embedImages allReadableOS ''![x](![a]()'' ''docs''
       = ((''![x](data:image/png;base64,YWJj)'', None), [ReadFile ''docs/![a](''])"
    by (simp add: embedImages_result wholeLink_def)
  have lnk: "rewriteMarkdownLinks ''[m](y [x.md)b]()'' = ''[m](y [x.html)b]()''"
    by code_simp
  from img lnk show ?thesis by simp
qed

text \<open>
  C10, amended. No match of any of the three patterns starts at a span with an empty
  target, \<open>[text]()\<close> or \<open>![alt]()\<close>, since each pattern needs one byte at least
  between the parentheses. The span comes out as it went in at every place the scan of a
  pass comes to:

  \<^item> First pass: for every text \<open>pre @ span @ rest\<close>, when the scan of the first pass
    comes to the span, the output of the pass is its output for \<open>pre\<close>, then the span,
    then its output for \<open>)\<close> and \<open>rest\<close> without the parenthesis at its head (the
    closing parenthesis of the span can be the byte before a link in \<open>rest\<close>).
  \<^item> Second pass: the output is its output for \<open>pre\<close>, then the span, then its output
    for \<open>rest\<close> as the text behind a closing parenthesis.
  \<^item> Image embedder: \<open>embedImages\<close> returns its text for \<open>pre\<close>, then the span, then
    its text for \<open>rest\<close>, and the events are those of \<open>pre\<close> followed by those of
    \<open>rest\<close>: the span causes no read and no print.
  \<^item> \<open>rewriteMarkdownLinks\<close> as a whole: when the scan of the first pass comes to the
    span and the scan of the second pass, on the output of the first, comes to it too
    (no match of either pass that starts before the span ends in it or takes it in), the
    result is what the passes make of \<open>pre\<close>, then the span, then what they make of the
    text behind it. Both scans do come to a span with no \<open>[\<close> before it; a text that is
    just the span comes back unchanged from \<open>rewriteMarkdownLinks\<close> and from
    \<open>embedImages\<close>.
\<close>

theorem empty_target_never_matched:
  assumes "CHR '']'' \<notin> set t" and "b = [] \<or> b = ''!''"
  shows
    "match_at LinkRegex prev (c # ''['' @ t @ '']()'' @ rest) = None
     \<and> match_at StartLinkRegex prev (''['' @ t @ '']()'' @ rest) = None
     \<and> match_at ImgRegex prev (''!['' @ t @ '']()'' @ rest) = None
     \<and> ((prev, b @ ''['' @ t @ '']()'' @ rest)
            \<in> set (scanStates LinkRegex None (pre @ b @ ''['' @ t @ '']()'' @ rest)) \<longrightarrow>
        linkPass (pre @ b @ ''['' @ t @ '']()'' @ rest)
          = linkPass pre @ b @ ''['' @ t @ '']()'' @ tl (linkPass ('')'' @ rest)))
     \<and> linkPass ('')'' @ rest) = '')'' @ tl (linkPass ('')'' @ rest))
     \<and> ((prev, b @ ''['' @ t @ '']()'' @ rest)
            \<in> set (scanStates StartLinkRegex None (pre @ b @ ''['' @ t @ '']()'' @ rest)) \<longrightarrow>
        startLinkPass None (pre @ b @ ''['' @ t @ '']()'' @ rest)
          = startLinkPass None pre @ b @ ''['' @ t @ '']()''
            @ startLinkPass (Some (CHR '')'')) rest)
     \<and> ((prev, b @ ''['' @ t @ '']()'' @ rest)
            \<in> set (scanStates ImgRegex None (pre @ b @ ''['' @ t @ '']()'' @ rest)) \<longrightarrow>
        embedImages sys (pre @ b @ ''['' @ t @ '']()'' @ rest) baseDir
          = ((fst (fst (embedImages sys pre baseDir)) @ b @ ''['' @ t @ '']()''
                @ fst (fst (embedImages sys rest baseDir)), None),
             snd (embedImages sys pre baseDir) @ snd (embedImages sys rest baseDir)))
     \<and> ((prev, b @ ''['' @ t @ '']()'' @ rest)
            \<in> set (scanStates LinkRegex None (pre @ b @ ''['' @ t @ '']()'' @ rest))
          \<and> (prev', b @ ''['' @ t @ '']()'' @ tl (linkPass ('')'' @ rest)))
            \<in> set (scanStates StartLinkRegex None
                     (linkPass pre @ b @ ''['' @ t @ '']()'' @ tl (linkPass ('')'' @ rest)))) \<longrightarrow>
        rewriteMarkdownLinks (pre @ b @ ''['' @ t @ '']()'' @ rest)
          = startLinkPass None (linkPass pre) @ b @ ''['' @ t @ '']()''
            @ startLinkPass (Some (CHR '')'')) (tl (linkPass ('')'' @ rest))))
     \<and> (CHR ''['' \<notin> set pre \<longrightarrow>
        rewriteMarkdownLinks (pre @ b @ ''['' @ t @ '']()'' @ rest)
          = pre @ b @ ''['' @ t @ '']()''
            @ startLinkPass (Some (CHR '')'')) (tl (linkPass ('')'' @ rest))))
     \<and> rewriteMarkdownLinks (b @ ''['' @ t @ '']()'') = b @ ''['' @ t @ '']()''
     \<and> embedImages sys (b @ ''['' @ t @ '']()'') baseDir = ((b @ ''['' @ t @ '']()'', None), [])"
proof (intro conjI impI, goal_cases)
  case 1
  show ?case using empty_target_at_state[OF assms(1), of prev c rest sys baseDir] by blast
next
  case 2
  show ?case using empty_target_at_state[OF assms(1), of prev c rest sys baseDir] by blast
next
  case 3
  show ?case using empty_target_at_state[OF assms(1), of prev c rest sys baseDir] by blast
next
  case 4
  have n: "CHR '']'' \<notin> set (b @ ''['' @ t)" using assms by auto
  from 4 have "(prev, (b @ ''['' @ t) @ '']()'' @ rest)
            \<in> set (scanStates LinkRegex None (pre @ (b @ ''['' @ t) @ '']()'' @ rest))"
    by simp
  from first_pass_at_empty[OF n this] show ?case by simp
next
  case 5
  show ?case using linkPass_first[of "CHR '')''" rest] by simp
next
  case 6
  have n: "CHR '']'' \<notin> set (b @ ''['' @ t)" using assms by auto
  from 6 have "(prev, (b @ ''['' @ t) @ '']()'' @ rest)
            \<in> set (scanStates StartLinkRegex None (pre @ (b @ ''['' @ t) @ '']()'' @ rest))"
    by simp
  from second_pass_at_empty[OF n this] show ?case by simp
next
  case 7
  have n: "CHR '']'' \<notin> set (b @ ''['' @ t)" using assms by auto
  from 7 have "(prev, (b @ ''['' @ t) @ '']()'' @ rest)
            \<in> set (scanStates ImgRegex None (pre @ (b @ ''['' @ t) @ '']()'' @ rest))"
    by simp
  from embed_at_empty[OF n this, of sys baseDir] show ?case by simp
next
  case 8
  have n: "CHR '']'' \<notin> set (b @ ''['' @ t)" using assms by auto
  from 8 have s1: "(prev, (b @ ''['' @ t) @ '']()'' @ rest)
            \<in> set (scanStates LinkRegex None (pre @ (b @ ''['' @ t) @ '']()'' @ rest))"
    and s2: "(prev', (b @ ''['' @ t) @ '']()'' @ tl (linkPass ('')'' @ rest)))
            \<in> set (scanStates StartLinkRegex None
                     (linkPass pre @ (b @ ''['' @ t) @ '']()'' @ tl (linkPass ('')'' @ rest))))"
    by simp_all
  from rewriter_at_empty[OF n s1 s2] show ?case by simp
next
  case 9
  have n: "CHR '']'' \<notin> set (b @ ''['' @ t)" using assms by auto
  from rewriter_first_empty[OF n 9, of rest] show ?case by simp
next
  case 10
  show ?case using assms(2) empty_target_at_state[OF assms(1), of prev c rest sys baseDir]
    by auto
next
  case 11
  show ?case using assms(2) empty_target_at_state[OF assms(1), of prev c rest sys baseDir]
    by auto
qed

theorem empty_target_never_matched_witness:
  "match_at ImgRegex None ''![alt]() ![b](c.png)'' = None
   \<and> linkPass ''x [text]() [a](b.md)'' = ''x [text]() [a](b.html)''
   \<and> startLinkPass None ''x ![alt]() y'' = ''x ![alt]() y''
   \<and> embedImages exampleOS ''x ![alt]() ![Gone](gone.gif)'' ''docs''
         = ((''x ![alt]() ![Gone](gone.gif)'', None),
            [ReadFile ''docs/gone.gif'',
             Print (''Warning: Could not read image gone.gif: ''
                    @ ''open docs/gone.gif: no such file or directory'' @ [CHR 0x0A])])
   \<and> rewriteMarkdownLinks ''[a](b.md) [text]() [c](d.md)'' = ''[a](b.html) [text]() [c](d.html)''
   \<and> rewriteMarkdownLinks ''See ![alt]() and [c](d.md)'' = ''See ![alt]() and [c](d.html)''
   \<and> rewriteMarkdownLinks ''[text]()'' = ''[text]()''
   \<and> embedImages allReadableOS ''![alt]()'' ''docs'' = ((''![alt]()'', None), [])"
proof -
  have m1: "(Some (CHR '' ''), ''[text]() [a](b.md)'')
              \<in> set (scanStates LinkRegex None ''x [text]() [a](b.md)'')"
    by (simp add: scanStates.simps(2) match_at.simps bracketed_def wholeLink_def)
  have m2: "(Some (CHR '' ''), ''![alt]() y'')
              \<in> set (scanStates StartLinkRegex None ''x ![alt]() y'')"
    by (simp add: scanStates.simps(2) match_at.simps bracketed_def wholeLink_def)
  have m3: "(Some (CHR '' ''), ''![alt]() ![Gone](gone.gif)'')
              \<in> set (scanStates ImgRegex None ''x ![alt]() ![Gone](gone.gif)'')"
    by (simp add: scanStates.simps(2) match_at.simps bracketed_def wholeLink_def)
  have m4: "(Some (CHR '' ''), ''[text]() [c](d.md)'')
              \<in> set (scanStates LinkRegex None ''[a](b.md) [text]() [c](d.md)'')"
    by (simp add: scanStates.simps(2) match_at.simps bracketed_def wholeLink_def)
  have m5: "(Some (CHR '' ''), ''[text]() [c](d.html)'')
              \<in> set (scanStates StartLinkRegex None ''[a](b.md) [text]() [c](d.html)'')"
    by (simp add: scanStates.simps(2) match_at.simps bracketed_def wholeLink_def)
  have l1: "linkPass ''x '' = ''x ''" "linkPass ''[a](b.md) '' = ''[a](b.md) ''"
    "tl (linkPass '') [a](b.md)'') = '' [a](b.html)''"
    "tl (linkPass '') [c](d.md)'') = '' [c](d.html)''"
    "tl (linkPass '') and [c](d.md)'') = '' and [c](d.html)''"
    by code_simp+
  have l2: "startLinkPass None ''x '' = ''x ''"
    "startLinkPass (Some (CHR '')'')) '' y'' = '' y''"
    "startLinkPass None ''[a](b.md) '' = ''[a](b.html) ''"
    "startLinkPass (Some (CHR '')'')) '' [c](d.html)'' = '' [c](d.html)''"
    "startLinkPass (Some (CHR '')'')) '' and [c](d.html)'' = '' and [c](d.html)''"
    by code_simp+
  have e1: "embedImages exampleOS ''x '' ''docs'' = ((''x '', None), [])"
    by (simp add: embedImages_result replaceAllStringFunc.simps(2) match_at.simps)
  have e2: "embedImages exampleOS '' ![Gone](gone.gif)'' ''docs''
              = (('' ![Gone](gone.gif)'', None),
                 [ReadFile ''docs/gone.gif'',
                  Print (''Warning: Could not read image gone.gif: ''
                         @ ''open docs/gone.gif: no such file or directory'' @ [CHR 0x0A])])"
    by code_simp
  have w1: "match_at ImgRegex None ''![alt]() ![b](c.png)'' = None"
    using empty_target_never_matched[where t = "''alt''" and b = "''!''" and prev = None
            and rest = "'' ![b](c.png)''", THEN conjunct2, THEN conjunct2, THEN conjunct1]
    by simp
  have w2: "linkPass ''x [text]() [a](b.md)'' = ''x [text]() [a](b.html)''"
    using empty_target_never_matched[where t = "''text''" and b = "[]"
            and prev = "Some (CHR '' '')" and pre = "''x ''" and rest = "'' [a](b.md)''",
            THEN conjunct2, THEN conjunct2, THEN conjunct2, THEN conjunct1]
      m1 by (simp add: l1)
  have w3: "startLinkPass None ''x ![alt]() y'' = ''x ![alt]() y''"
    using empty_target_never_matched[where t = "''alt''" and b = "''!''"
            and prev = "Some (CHR '' '')" and pre = "''x ''" and rest = "'' y''",
            THEN conjunct2, THEN conjunct2, THEN conjunct2, THEN conjunct2, THEN conjunct2,
            THEN conjunct1]
      m2 by (simp add: l2)
  have w4: "embedImages exampleOS ''x ![alt]() ![Gone](gone.gif)'' ''docs''
         = ((''x ![alt]() ![Gone](gone.gif)'', None),
            [ReadFile ''docs/gone.gif'',
             Print (''Warning: Could not read image gone.gif: ''
                    @ ''open docs/gone.gif: no such file or directory'' @ [CHR 0x0A])])"
    using empty_target_never_matched[where t = "''alt''" and b = "''!''"
            and prev = "Some (CHR '' '')" and pre = "''x ''" and rest = "'' ![Gone](gone.gif)''"
            and sys = exampleOS and baseDir = "''docs''",
            THEN conjunct2, THEN conjunct2, THEN conjunct2, THEN conjunct2, THEN conjunct2,
            THEN conjunct2, THEN conjunct1]
      m3 by (simp add: e1 e2)
  have w5: "rewriteMarkdownLinks ''[a](b.md) [text]() [c](d.md)''
              = ''[a](b.html) [text]() [c](d.html)''"
    using empty_target_never_matched[where t = "''text''" and b = "[]"
            and prev = "Some (CHR '' '')" and prev' = "Some (CHR '' '')"
            and pre = "''[a](b.md) ''" and rest = "'' [c](d.md)''",
            THEN conjunct2, THEN conjunct2, THEN conjunct2, THEN conjunct2, THEN conjunct2,
            THEN conjunct2, THEN conjunct2, THEN conjunct1]
      m4 m5 by (simp add: l1 l2)
  have w6: "rewriteMarkdownLinks ''See ![alt]() and [c](d.md)'' = ''See ![alt]() and [c](d.html)''"
    using empty_target_never_matched[where t = "''alt''" and b = "''!''"
            and pre = "''See ''" and rest = "'' and [c](d.md)''",
            THEN conjunct2, THEN conjunct2, THEN conjunct2, THEN conjunct2, THEN conjunct2,
            THEN conjunct2, THEN conjunct2, THEN conjunct2, THEN conjunct1]
    by (simp add: l1 l2)
  have w7: "rewriteMarkdownLinks ''[text]()'' = ''[text]()''"
    using empty_target_never_matched[where t = "''text''" and b = "[]",
            THEN conjunct2, THEN conjunct2, THEN conjunct2, THEN conjunct2, THEN conjunct2,
            THEN conjunct2, THEN conjunct2, THEN conjunct2, THEN conjunct2, THEN conjunct1]
    by simp
  have w8: "embedImages allReadableOS ''![alt]()'' ''docs'' = ((''![alt]()'', None), [])"
    using empty_target_never_matched[where t = "''alt''" and b = "''!''"
            and sys = allReadableOS and baseDir = "''docs''",
            THEN conjunct2, THEN conjunct2, THEN conjunct2, THEN conjunct2, THEN conjunct2,
            THEN conjunct2, THEN conjunct2, THEN conjunct2, THEN conjunct2, THEN conjunct2]
    by simp
  from w1 w2 w3 w4 w5 w6 w7 w8 show ?thesis by blast
qed

end
